theory Spec2Isabelle
  imports Main "HOL-Library.AList" "HOL-Library.Word"
begin

section \<open>Data model of the conversion engine\<close>

text \<open>
  The engine module (\<^verbatim>\<open>src/unnamed/part_000\<close>) imports the types \<^verbatim>\<open>FileFormat\<close>,
  \<^verbatim>\<open>FileData\<close>, \<^verbatim>\<open>FormatHandler\<close> and the class \<^verbatim>\<open>ConvertPathNode\<close>. Their fields are
  taken from the way the engine reads them. JavaScript strings are modelled as
  \<^typ>\<open>string\<close>, a \<^verbatim>\<open>Uint8Array\<close> as a list of bytes.

  \<^verbatim>\<open>from\<close> is a reserved word of the proof language, so the two direction flags of a
  format are called \<open>from_cap\<close> and \<open>to_cap\<close>. The long name and the category of a format
  are never inspected by the engine; they are carried along as \<open>longName\<close> and
  \<open>category\<close>.
\<close>

type_synonym byte = "8 word"

record FileFormat =
  longName :: string
  format :: string
  extension :: string
  mime :: string
  from_cap :: bool
  to_cap :: bool
  internal :: string
  category :: string
  lossless :: bool

text \<open>\<^verbatim>\<open>FileData\<close> is \<^verbatim>\<open>{ name, bytes }\<close>.\<close>

record FileData =
  fname :: string
  bytes :: "byte list"

text \<open>
  A browser \<^verbatim>\<open>File\<close>: the engine reads \<^verbatim>\<open>file.name\<close>, \<^verbatim>\<open>file.type\<close> and the
  buffer that \<^verbatim>\<open>file.arrayBuffer()\<close> resolves to.
\<close>

record File =
  file_name :: string
  file_type :: string
  file_content :: "byte list"

text \<open>
  A handler as the engine sees it: its name and its \<^verbatim>\<open>supportedFormats\<close>, which is
  \<^verbatim>\<open>undefined\<close> (\<open>None\<close>) until the handler has been initialised. What the handler
  \<^emph>\<open>does\<close> (\<^verbatim>\<open>ready\<close>, \<^verbatim>\<open>init()\<close>, \<^verbatim>\<open>doConvert()\<close>) lives in the handler modules, which are
  outside the engine; it is a parameter of the model (see \<open>collaborators\<close> below).
\<close>

record Handler =
  name :: string
  supportedFormats :: "FileFormat list option"

text \<open>
  \<^verbatim>\<open>new ConvertPathNode(handler, format)\<close>. The engine builds anchor nodes from
  \<^verbatim>\<open>engine.handlers[0]\<close>, which is \<^verbatim>\<open>undefined\<close> when no handler is registered, so the
  handler of a node is optional.
\<close>

record ConvertPathNode =
  handler :: "Handler option"
  nformat :: FileFormat

type_synonym path = "ConvertPathNode list"

section \<open>JavaScript helpers\<close>

text \<open>\<^verbatim>\<open>Array.prototype.join\<close>.\<close>

fun join :: "string \<Rightarrow> string list \<Rightarrow> string" where
  "join sep [] = []"
| "join sep [x] = x"
| "join sep (x # y # ys) = x @ sep @ join sep (y # ys)"

text \<open>
  \<^verbatim>\<open>String.prototype.toLowerCase\<close> is a builtin of the language, not code of the engine:
  the functions that call it take it as a parameter \<open>lower\<close>, so that what is proved of
  them holds for the builtin on every string. \<open>asciiLowerCase\<close> is what the builtin does
  on ASCII text (A to Z are mapped, every other character is left alone); the concrete runs
  below use it, on ASCII names only.
\<close>

definition lowerChar :: "char \<Rightarrow> char" where
  "lowerChar c =
     (let n = (of_char c :: nat) in if 65 \<le> n \<and> n \<le> 90 then char_of (n + 32) else c)"

definition asciiLowerCase :: "string \<Rightarrow> string" where
  "asciiLowerCase s = map lowerChar s"

text \<open>
  \<^verbatim>\<open>name.split(".").pop()\<close>: the text after the last dot, the whole name when it has
  no dot.
\<close>

definition splitPop :: "string \<Rightarrow> string" where
  "splitPop s = rev (takeWhile (\<lambda>c. c \<noteq> CHR ''.'') (rev s))"

text \<open>
  A JavaScript \<^verbatim>\<open>Map\<close> is an association list in insertion order with distinct keys:
  \<^verbatim>\<open>get\<close> is \<^const>\<open>map_of\<close>, \<^verbatim>\<open>set\<close> is \<^const>\<open>AList.update\<close> (an existing key keeps its
  place and takes the new value, a new key goes to the end), \<^verbatim>\<open>new Map(entries)\<close>
  sets the entries one after the other.
\<close>

definition mapHas :: "('k \<times> 'v) list \<Rightarrow> 'k \<Rightarrow> bool" where
  "mapHas m k = (map_of m k \<noteq> None)"

definition newMap :: "('k \<times> 'v) list \<Rightarrow> ('k \<times> 'v) list" where
  "newMap entries = foldl (\<lambda>m (k, v). AList.update k v m) [] entries"

section \<open>Catalog merge (initializeEngine, deduplication of formats)\<close>

text \<open>The key \<^verbatim>\<open>`${f.format}::${f.internal}`\<close>.\<close>

definition formatKey :: "FileFormat \<Rightarrow> string" where
  "formatKey f = format f @ ''::'' @ internal f"

text \<open>
  The body of the \<^verbatim>\<open>if (existing)\<close> branch: the entry already in the map takes the
  disjunction of the direction flags and becomes lossless when the newcomer is.
\<close>

definition mergeInto :: "FileFormat \<Rightarrow> FileFormat \<Rightarrow> FileFormat" where
  "mergeInto existing f =
     existing\<lparr> from_cap := from_cap existing \<or> from_cap f,
               to_cap := to_cap existing \<or> to_cap f,
               lossless := (if lossless f then True else lossless existing) \<rparr>"

text \<open>The loop \<^verbatim>\<open>for (const f of rawFormats)\<close> over the map \<^verbatim>\<open>formatMap\<close>.\<close>

fun mergeLoop :: "FileFormat list \<Rightarrow> (string \<times> FileFormat) list \<Rightarrow> (string \<times> FileFormat) list" where
  "mergeLoop [] formatMap = formatMap"
| "mergeLoop (f # fs) formatMap =
     (let key = formatKey f in
      case map_of formatMap key of
        Some existing \<Rightarrow> mergeLoop fs (AList.update key (mergeInto existing f) formatMap)
      | None \<Rightarrow> mergeLoop fs (AList.update key f formatMap))"

text \<open>\<^verbatim>\<open>Array.from(formatMap.values())\<close>.\<close>

definition mergeFormats :: "FileFormat list \<Rightarrow> FileFormat list" where
  "mergeFormats rawFormats = map snd (mergeLoop rawFormats [])"

section \<open>Format detection and handler lookup\<close>

text \<open>
  \<^verbatim>\<open>normalizeMimeType\<close> is imported from a module that is not part of the engine; it is a
  parameter \<open>norm\<close>. An empty string is the falsy mime. The three predicates are the
  callbacks of the three calls of \<^verbatim>\<open>allFormats.find\<close>.
\<close>

definition tier1 :: "(string \<Rightarrow> string) \<Rightarrow> string \<Rightarrow> string \<Rightarrow> FileFormat \<Rightarrow> bool" where
  "tier1 lower ext m f \<longleftrightarrow> from_cap f \<and> lower (extension f) = ext \<and> (mime f = m \<or> m = [])"

definition tier2 :: "(string \<Rightarrow> string) \<Rightarrow> string \<Rightarrow> FileFormat \<Rightarrow> bool" where
  "tier2 lower ext f \<longleftrightarrow> from_cap f \<and> lower (extension f) = ext"

definition tier3 :: "string \<Rightarrow> FileFormat \<Rightarrow> bool" where
  "tier3 m f \<longleftrightarrow> from_cap f \<and> mime f = m"

definition detectInputFormat ::
  "(string \<Rightarrow> string) \<Rightarrow> (string \<Rightarrow> string) \<Rightarrow> File \<Rightarrow> FileFormat list \<Rightarrow> FileFormat option" where
  "detectInputFormat lower norm file allFormats =
     (let ext = lower (splitPop (file_name file));
          m = norm (file_type file)
      in case List.find (tier1 lower ext m) allFormats of
           Some f \<Rightarrow> Some f
         | None \<Rightarrow>
             (case List.find (tier2 lower ext) allFormats of
                Some f \<Rightarrow> Some f
              | None \<Rightarrow> if m \<noteq> [] then List.find (tier3 m) allFormats else None))"

text \<open>
  \<^verbatim>\<open>handlers.find(h => h.supportedFormats?.some(...)) ?? null\<close>: a handler without
  formats never matches.
\<close>

definition supportsFormat :: "FileFormat \<Rightarrow> Handler \<Rightarrow> bool" where
  "supportsFormat fmt h =
     (case supportedFormats h of
        None \<Rightarrow> False
      | Some fs \<Rightarrow> list_ex (\<lambda>f. internal f = internal fmt \<and> format f = format fmt) fs)"

definition findHandlerForFormat :: "FileFormat \<Rightarrow> Handler list \<Rightarrow> Handler option" where
  "findHandlerForFormat fmt handlers = List.find (supportsFormat fmt) handlers"

section \<open>Collaborators outside the engine\<close>

text \<open>
  The handler modules and the graph (its construction and its path search) are not part
  of the engine. Their behaviour is a parameter of the model, a record of functions over
  an arbitrary state \<open>'w\<close> of the outside world (the handlers' own mutable state, the
  iterator's queue):
  \<^item> \<open>handlerReady h w\<close> reads \<^verbatim>\<open>h.ready\<close>;
  \<^item> \<open>handlerInit h w\<close> runs \<^verbatim>\<open>await h.init()\<close>: whether it returned (\<open>True\<close>) or
    threw (\<open>False\<close>), and the value of \<^verbatim>\<open>h.supportedFormats\<close> it leaves behind;
  \<^item> \<open>doConvert h files a b w\<close> runs \<^verbatim>\<open>await h.doConvert(files, a, b)\<close>: the files it
    resolves to, or \<open>None\<close> when it throws;
  \<^item> \<open>searchNext fromNode toNode simpleMode deadEnds w\<close> is one step of the iterator
    \<^verbatim>\<open>engine.graph.searchPath(fromNode, toNode, simpleMode)\<close>: the next path it yields,
    or \<open>None\<close> when it is done. It may consult the dead-end memory as it is when the
    step is taken;
  \<^item> \<open>graphInit cache handlers w\<close> runs \<^verbatim>\<open>graph.init(supportedFormatCache, handlers)\<close>:
    whether it returned (\<open>True\<close>) or threw (\<open>False\<close>).
  The optional progress callback is absent (\<^verbatim>\<open>onProgress\<close> undefined).
\<close>

record 'w collaborators =
  handlerReady :: "Handler \<Rightarrow> 'w \<Rightarrow> bool"
  handlerInit :: "Handler \<Rightarrow> 'w \<Rightarrow> (bool \<times> FileFormat list option) \<times> 'w"
  doConvert ::
    "Handler \<Rightarrow> FileData list \<Rightarrow> FileFormat \<Rightarrow> FileFormat \<Rightarrow> 'w \<Rightarrow> FileData list option \<times> 'w"
  searchNext ::
    "ConvertPathNode \<Rightarrow> ConvertPathNode \<Rightarrow> bool \<Rightarrow> path list \<Rightarrow> 'w \<Rightarrow> path option \<times> 'w"
  graphInit :: "(string \<times> FileFormat list) list \<Rightarrow> Handler list \<Rightarrow> 'w \<Rightarrow> bool \<times> 'w"

text \<open>
  Modelled from the spec: the dead-end memory of \<^verbatim>\<open>TraversionGraph\<close>, whose source is
  not part of the engine module. The spec (4.4) gives its contract: \<^verbatim>\<open>clear()\<close> resets
  the memory, \<^verbatim>\<open>record(path)\<close> adds a path. The engine calls them as
  \<^verbatim>\<open>clearDeadEndPaths()\<close> and \<^verbatim>\<open>addDeadEndPath(path)\<close>.
\<close>

record TraversionGraph =
  deadEndPaths :: "path list"

definition clearDeadEndPaths :: "TraversionGraph \<Rightarrow> TraversionGraph" where
  "clearDeadEndPaths g = g\<lparr>deadEndPaths := []\<rparr>"

definition addDeadEndPath :: "path \<Rightarrow> TraversionGraph \<Rightarrow> TraversionGraph" where
  "addDeadEndPath p g = g\<lparr>deadEndPaths := deadEndPaths g @ [p]\<rparr>"

text \<open>
  Modelled from the spec: \<^verbatim>\<open>new TraversionGraph()\<close> starts with an empty memory (3). Of a
  graph only this memory is modelled: the nodes and edges that \<^verbatim>\<open>graph.init\<close> builds live
  in the outside world, where the path search reads them, and \<^verbatim>\<open>graph.init\<close> is taken to
  leave the memory alone.
\<close>

definition newGraph :: TraversionGraph where
  "newGraph = \<lparr>deadEndPaths = []\<rparr>"

record ConversionEngine =
  handlers :: "Handler list"
  graph :: TraversionGraph
  allFormats :: "FileFormat list"
  supportedFormatCache :: "(string \<times> FileFormat list) list"
  ready :: bool

record ConversionResult =
  files :: "FileData list"
  path :: path

section \<open>The executor (convertFiles)\<close>

text \<open>
  What \<^verbatim>\<open>convertFiles\<close> can reject with: the terminal error with its message, or the
  \<^verbatim>\<open>TypeError\<close> of reading \<^verbatim>\<open>n.handler.name\<close> on a node without a handler while the path
  key is built (that line is outside the \<^verbatim>\<open>try\<close> block).
\<close>

datatype convert_error = NoWorkingPath string | TypeError

text \<open>Why a path was abandoned inside the \<^verbatim>\<open>try\<close> block.\<close>

datatype hop_failure = HandlerUndefined | InitThrew | ConvertThrew | OutputEmpty

text \<open>
  The trace records, for each path the iterator yields, what the loop did with it:
  skipped it (\<^verbatim>\<open>continue\<close> on a known key), or entered the \<^verbatim>\<open>try\<close> block, which ended in
  the \<^verbatim>\<open>catch\<close> (\<open>Failed\<close>), fell through with no file (\<open>NoFiles\<close>) or returned
  (\<open>Succeeded\<close>). It is bookkeeping of the model; the code keeps no such list.
\<close>

datatype attempt = Failed hop_failure | NoFiles | Succeeded

datatype event = Skipped path | Tried path attempt | BadKey path | Exhausted

record 'w exec =
  world :: 'w
  xgraph :: TraversionGraph
  failedPaths :: "string set"
  trace :: "event list"

text \<open>\<^verbatim>\<open>engine.handlers[0]\<close>: \<^verbatim>\<open>undefined\<close> on an empty array.\<close>

definition firstHandler :: "Handler list \<Rightarrow> Handler option" where
  "firstHandler hs = (case hs of [] \<Rightarrow> None | h # _ \<Rightarrow> Some h)"

text \<open>\<^verbatim>\<open>found || engine.handlers[0]\<close>: a handler object is truthy.\<close>

definition anchorHandler :: "Handler option \<Rightarrow> Handler list \<Rightarrow> Handler option" where
  "anchorHandler found hs = (case found of Some h \<Rightarrow> Some h | None \<Rightarrow> firstHandler hs)"

text \<open>
  \<^verbatim>\<open>path.map((n) => `${n.handler.name}:${n.format.internal}`).join("->")\<close>; \<open>None\<close> is
  the \<^verbatim>\<open>TypeError\<close> of a node without a handler.
\<close>

definition nodeKey :: "ConvertPathNode \<Rightarrow> string option" where
  "nodeKey n = map_option (\<lambda>h. name h @ '':'' @ internal (nformat n)) (handler n)"

definition pathKey :: "path \<Rightarrow> string option" where
  "pathKey p = map_option (join ''->'') (those (map nodeKey p))"

text \<open>
  The signature of a path in the sense of the spec: the ordered list of handler name and
  format internal id of its nodes.
\<close>

definition signature :: "path \<Rightarrow> (string option \<times> string) list" where
  "signature p = map (\<lambda>n. (map_option name (handler n), internal (nformat n))) p"

text \<open>\<^verbatim>\<open>if (!handler.ready) { await handler.init(); }\<close>: \<open>False\<close> when \<^verbatim>\<open>init\<close> threw.\<close>

definition ensureReady :: "'w collaborators \<Rightarrow> Handler \<Rightarrow> 'w \<Rightarrow> bool \<times> 'w" where
  "ensureReady C h w =
     (if handlerReady C h w then (True, w)
      else (case handlerInit C h w of ((ok, _), w1) \<Rightarrow> (ok, w1)))"

text \<open>
  The inner loop \<^verbatim>\<open>for (let i = 0; i < path.length - 1; i++)\<close> over the hops of a path,
  from the current files. \<open>Inl\<close> is a jump to the \<^verbatim>\<open>catch\<close> block: reading
  \<^verbatim>\<open>handler.ready\<close> on a node without a handler, a throwing \<^verbatim>\<open>init\<close> or \<^verbatim>\<open>doConvert\<close>, or
  the \<^verbatim>\<open>throw new Error("Output is empty")\<close> of the check after the hop.
\<close>

fun runHops ::
  "'w collaborators \<Rightarrow> path \<Rightarrow> FileData list \<Rightarrow> 'w \<Rightarrow> (hop_failure + FileData list) \<times> 'w" where
  "runHops C (a # b # rest) currentFiles w =
     (case handler b of
        None \<Rightarrow> (Inl HandlerUndefined, w)
      | Some h \<Rightarrow>
          (case ensureReady C h w of
             (False, w1) \<Rightarrow> (Inl InitThrew, w1)
           | (True, w1) \<Rightarrow>
               (case doConvert C h currentFiles (nformat a) (nformat b) w1 of
                  (None, w2) \<Rightarrow> (Inl ConvertThrew, w2)
                | (Some out, w2) \<Rightarrow>
                    if list_ex (\<lambda>f. bytes f = []) out then (Inl OutputEmpty, w2)
                    else runHops C (b # rest) out w2)))"
| "runHops C _ currentFiles w = (Inr currentFiles, w)"

text \<open>The message of the terminal error.\<close>

definition noPathMessage :: "FileFormat \<Rightarrow> FileFormat \<Rightarrow> string" where
  "noPathMessage inputFormat outputFormat =
     ''Could not find a working conversion path from '' @ format inputFormat @ '' to ''
       @ format outputFormat"

text \<open>
  The loop \<^verbatim>\<open>for await (const path of pathIterator)\<close>. The iterator may never finish, so
  the loop is a partial function: \<open>None\<close> means that \<^verbatim>\<open>convertFiles\<close> never settles.
\<close>

partial_function (option) convertLoop ::
  "'w collaborators \<Rightarrow> ConvertPathNode \<Rightarrow> ConvertPathNode \<Rightarrow> bool \<Rightarrow> FileData list \<Rightarrow>
   FileFormat \<Rightarrow> FileFormat \<Rightarrow> 'w exec \<Rightarrow> ((convert_error + ConversionResult) \<times> 'w exec) option"
where
  "convertLoop C fromNode toNode simpleMode fileDataArray inputFormat outputFormat st =
     (case searchNext C fromNode toNode simpleMode (deadEndPaths (xgraph st)) (world st) of
        (None, w1) \<Rightarrow>
          Some (Inl (NoWorkingPath (noPathMessage inputFormat outputFormat)),
                st\<lparr>world := w1, trace := trace st @ [Exhausted]\<rparr>)
      | (Some p, w1) \<Rightarrow>
          (case pathKey p of
             None \<Rightarrow> Some (Inl TypeError, st\<lparr>world := w1, trace := trace st @ [BadKey p]\<rparr>)
           | Some key \<Rightarrow>
               if key \<in> failedPaths st
               then convertLoop C fromNode toNode simpleMode fileDataArray inputFormat outputFormat
                      (st\<lparr>world := w1, trace := trace st @ [Skipped p]\<rparr>)
               else
                 (case runHops C p fileDataArray w1 of
                    (Inr currentFiles, w2) \<Rightarrow>
                      if currentFiles \<noteq> []
                      then Some (Inr \<lparr>files = currentFiles, path = p\<rparr>,
                                 st\<lparr>world := w2, trace := trace st @ [Tried p Succeeded]\<rparr>)
                      else convertLoop C fromNode toNode simpleMode fileDataArray inputFormat
                             outputFormat
                             (st\<lparr>world := w2, trace := trace st @ [Tried p NoFiles]\<rparr>)
                  | (Inl err, w2) \<Rightarrow>
                      convertLoop C fromNode toNode simpleMode fileDataArray inputFormat
                        outputFormat
                        (st\<lparr>world := w2,
                            xgraph := addDeadEndPath p (xgraph st),
                            failedPaths := insert key (failedPaths st),
                            trace := trace st @ [Tried p (Failed err)]\<rparr>))))"

text \<open>
  \<^verbatim>\<open>convertFiles\<close>: read the files, anchor the two formats, clear the dead-end memory,
  start the loop with an empty \<^verbatim>\<open>failedPaths\<close>. The result comes with the final state:
  the outside world, the graph of the engine, and the trace. Reading a file
  (\<^verbatim>\<open>file.arrayBuffer()\<close>) is taken to succeed, and the iterator and the two methods of
  the dead-end memory are taken not to throw.
\<close>

definition convertFiles ::
  "'w collaborators \<Rightarrow> File list \<Rightarrow> FileFormat \<Rightarrow> FileFormat \<Rightarrow> ConversionEngine \<Rightarrow> bool \<Rightarrow> 'w \<Rightarrow>
   ((convert_error + ConversionResult) \<times> 'w exec) option" where
  "convertFiles C inputFiles inputFormat outputFormat engine simpleMode w =
     (let fileDataArray = map (\<lambda>f. \<lparr>fname = file_name f, bytes = file_content f\<rparr>) inputFiles;
          fromHandler = findHandlerForFormat inputFormat (handlers engine);
          toHandler = findHandlerForFormat outputFormat (handlers engine);
          fromNode = \<lparr>handler = anchorHandler fromHandler (handlers engine), nformat = inputFormat\<rparr>;
          toNode = \<lparr>handler = anchorHandler toHandler (handlers engine), nformat = outputFormat\<rparr>
      in convertLoop C fromNode toNode simpleMode fileDataArray inputFormat outputFormat
           \<lparr>world = w, xgraph = clearDeadEndPaths (graph engine), failedPaths = {}, trace = []\<rparr>)"

text \<open>
  Bookkeeping over a trace: the paths that ended in the \<^verbatim>\<open>catch\<close> block, in order, and
  the keys of a list of paths.
\<close>

definition failedOf :: "event list \<Rightarrow> path list" where
  "failedOf tr = concat (map (\<lambda>ev. case ev of Tried p (Failed e) \<Rightarrow> [p] | _ \<Rightarrow> []) tr)"

definition keysOf :: "path list \<Rightarrow> string set" where
  "keysOf ps = set (List.map_filter pathKey ps)"

section \<open>Engine construction (initializeEngine)\<close>

text \<open>
  The state of the bootstrap loop: the outside world, the handler objects (their
  \<^verbatim>\<open>supportedFormats\<close> are assigned in place), the map \<^verbatim>\<open>supportedFormatCache\<close>, the array
  \<^verbatim>\<open>rawFormats\<close>, and the log of the \<^verbatim>\<open>init()\<close> calls made: the index of the handler and
  whether the call returned normally. The log is bookkeeping; the code keeps no such
  list.
\<close>

record 'w boot =
  bworld :: 'w
  bhandlers :: "Handler list"
  cache :: "(string \<times> FileFormat list) list"
  rawFormats :: "FileFormat list"
  initCalls :: "(nat \<times> bool) list"

text \<open>
  Loading \<^verbatim>\<open>/cache.json\<close>. The snapshot is the parsed body, a list of pairs of a handler
  name and a list of formats, as the type \<^verbatim>\<open>Map<string, FileFormat[]>\<close> of the code has it.
  \<open>None\<close> stands for the ways of the \<^verbatim>\<open>try\<close> block to end before anything is stored: the
  fetch fails, the response is not ok, the body is not JSON, or \<^verbatim>\<open>new Map\<close> refuses it. A
  body that \<^verbatim>\<open>new Map\<close> accepts and that is not of this type (say a pair whose second
  component is no list, on which the spread inside \<^verbatim>\<open>forEach\<close> throws after earlier pairs
  were stored) is not covered by the model.
\<close>

definition loadCache ::
  "(string \<times> FileFormat list) list option \<Rightarrow> (string \<times> FileFormat list) list \<times> FileFormat list" where
  "loadCache cacheJSON =
     (case cacheJSON of
        None \<Rightarrow> ([], [])
      | Some entries \<Rightarrow>
          foldl (\<lambda>(c, raw) (handlerName, formats). (AList.update handlerName formats c, raw @ formats))
            ([], []) (newMap entries))"

text \<open>
  The body of the loop \<^verbatim>\<open>for (let i = 0; i < handlers.length; i++)\<close> for the handler
  at index \<open>i\<close>: a handler whose name is in the cache takes the cached formats
  (\<^verbatim>\<open>continue\<close>); any other handler is initialised inside \<^verbatim>\<open>try\<close>, and registered when
  \<^verbatim>\<open>init\<close> returned and left formats behind.
\<close>

definition initStep :: "'w collaborators \<Rightarrow> nat \<Rightarrow> 'w boot \<Rightarrow> 'w boot" where
  "initStep C i st =
     (let h = bhandlers st ! i in
      if mapHas (cache st) (name h)
      then st\<lparr>bhandlers := (bhandlers st)[i := h\<lparr>supportedFormats := map_of (cache st) (name h)\<rparr>]\<rparr>
      else
        (case handlerInit C h (bworld st) of
           ((ok, sf), w1) \<Rightarrow>
             (let st1 = st\<lparr>bworld := w1,
                            bhandlers := (bhandlers st)[i := h\<lparr>supportedFormats := sf\<rparr>],
                            initCalls := initCalls st @ [(i, ok)]\<rparr>
              in if ok
                 then (case sf of
                         Some fs \<Rightarrow>
                           st1\<lparr>cache := AList.update (name h) fs (cache st1),
                               rawFormats := rawFormats st1 @ fs\<rparr>
                       | None \<Rightarrow> st1)
                 else st1)))"

function initLoop :: "'w collaborators \<Rightarrow> nat \<Rightarrow> 'w boot \<Rightarrow> 'w boot" where
  "initLoop C i st =
     (if i < length (bhandlers st) then initLoop C (Suc i) (initStep C i st) else st)"
  by pat_completeness auto
termination
  by (relation "measure (\<lambda>(C, i, st). length (bhandlers st) - i)")
     (auto simp: initStep_def Let_def split: prod.splits option.splits)

declare initLoop.simps [simp del]

text \<open>
  \<^verbatim>\<open>initializeEngine\<close>, from the list of handlers that the handlers module exports (the
  dynamic import is taken to succeed) and the snapshot. After the loop and the merge it
  builds the graph; when \<^verbatim>\<open>graph.init\<close> throws, the promise rejects and no engine is
  stored (\<open>None\<close>), otherwise the result is the engine it stores in \<^verbatim>\<open>engineInstance\<close>.
  The result comes with the final state of the bootstrap.
\<close>

definition initializeEngine ::
  "'w collaborators \<Rightarrow> (string \<times> FileFormat list) list option \<Rightarrow> Handler list \<Rightarrow> 'w \<Rightarrow>
   ConversionEngine option \<times> 'w boot" where
  "initializeEngine C cacheJSON hs w =
     (let (c0, raw0) = loadCache cacheJSON;
          st = initLoop C 0 \<lparr>bworld = w, bhandlers = hs, cache = c0, rawFormats = raw0, initCalls = []\<rparr>;
          merged = mergeFormats (rawFormats st)
      in case graphInit C (cache st) (bhandlers st) (bworld st) of
           (True, w1) \<Rightarrow>
             (Some \<lparr>handlers = bhandlers st, graph = newGraph, allFormats = merged,
                    supportedFormatCache = cache st, ready = True\<rparr>,
              st\<lparr>bworld := w1\<rparr>)
         | (False, w1) \<Rightarrow> (None, st\<lparr>bworld := w1\<rparr>))"

section \<open>The memoised engine (getEngine)\<close>

text \<open>
  The module variables \<^verbatim>\<open>engineInstance\<close> and \<^verbatim>\<open>initPromise\<close>. An engine object is
  identified by the run of \<^verbatim>\<open>initializeEngine\<close> that built it, a promise by the run it
  belongs to; \<open>started\<close> counts the runs begun so far.
\<close>

record ModuleState =
  engineInstance :: "(nat \<times> ConversionEngine) option"
  initPromise :: "nat option"
  started :: nat

definition initialModule :: ModuleState where
  "initialModule = \<lparr>engineInstance = None, initPromise = None, started = 0\<rparr>"

text \<open>
  What a call of \<^verbatim>\<open>getEngine\<close> hands back: the engine itself, or the promise of a run.
\<close>

datatype answer = Instance "nat \<times> ConversionEngine" | Pending nat

text \<open>
  The last three lines of \<^verbatim>\<open>getEngine\<close>: hand back the promise in flight, or call
  \<^verbatim>\<open>initializeEngine()\<close>, which starts a new run, and keep its promise.
\<close>

definition shareInit :: "ModuleState \<Rightarrow> answer \<times> ModuleState" where
  "shareInit s =
     (case initPromise s of
        Some pr \<Rightarrow> (Pending pr, s)
      | None \<Rightarrow> (Pending (started s), s\<lparr>initPromise := Some (started s), started := Suc (started s)\<rparr>))"

text \<open>
  \<^verbatim>\<open>getEngine\<close>. Its body has no \<^verbatim>\<open>await\<close>, so it runs without interruption.
\<close>

definition getEngine :: "ModuleState \<Rightarrow> answer \<times> ModuleState" where
  "getEngine s =
     (case engineInstance s of
        Some e \<Rightarrow> if ready (snd e) then (Instance e, s) else shareInit s
      | None \<Rightarrow> shareInit s)"

text \<open>
  The events of a process: a call of \<^verbatim>\<open>getEngine\<close>; run \<open>r\<close> of \<^verbatim>\<open>initializeEngine\<close>
  reaching its last statement with the engine it built (it stores the engine with
  \<^verbatim>\<open>ready: true\<close> in \<^verbatim>\<open>engineInstance\<close> and resolves its promise with it); run \<open>r\<close>
  rejecting. A run finishes only after it has started, and once.
\<close>

datatype process_event = Call | Completes nat ConversionEngine | Rejects nat

record Process =
  module :: ModuleState
  answers :: "answer list"
  settled :: "(nat \<times> (nat \<times> ConversionEngine) option) list"

definition processStep :: "process_event \<Rightarrow> Process \<Rightarrow> Process" where
  "processStep ev ps =
     (case ev of
        Call \<Rightarrow>
          (case getEngine (module ps) of
             (a, s') \<Rightarrow> ps\<lparr>module := s', answers := answers ps @ [a]\<rparr>)
      | Completes r e \<Rightarrow>
          if r < started (module ps) \<and> map_of (settled ps) r = None
          then ps\<lparr>module := (module ps)\<lparr>engineInstance := Some (r, e\<lparr>ready := True\<rparr>)\<rparr>,
                  settled := settled ps @ [(r, Some (r, e\<lparr>ready := True\<rparr>))]\<rparr>
          else ps
      | Rejects r \<Rightarrow>
          if r < started (module ps) \<and> map_of (settled ps) r = None
          then ps\<lparr>settled := settled ps @ [(r, None)]\<rparr>
          else ps)"

definition runProcess :: "process_event list \<Rightarrow> Process" where
  "runProcess evs = foldl (\<lambda>ps ev. processStep ev ps) \<lparr>module = initialModule, answers = [], settled = []\<rparr> evs"

text \<open>
  The engine a caller ends up with: the instance it was handed, or what the promise it
  was handed resolved to (\<open>None\<close> while the run is in flight or when it rejected).
\<close>

definition resolved :: "Process \<Rightarrow> answer \<Rightarrow> (nat \<times> ConversionEngine) option" where
  "resolved ps a =
     (case a of
        Instance e \<Rightarrow> Some e
      | Pending r \<Rightarrow> (case map_of (settled ps) r of Some (Some e) \<Rightarrow> Some e | _ \<Rightarrow> None))"

section \<open>Notions used to state the properties\<close>

text \<open>
  A map from keys to formats is keyed when every entry sits under the key of its own
  format.
\<close>

definition keyed :: "(string \<times> FileFormat) list \<Rightarrow> bool" where
  "keyed m \<longleftrightarrow> (\<forall>(k, v)\<in>set m. formatKey v = k)"


text \<open>
  The identity key of a format in the sense of the spec (section 3): the pair of its format
  name and its internal id. The code keys the merge by the string it joins from the two
  (\<open>formatKey\<close>). Two formats collide when they have different identity keys and the same
  string; a list of contributions has no collision when no two of its formats do.
\<close>

definition identity :: "FileFormat \<Rightarrow> string \<times> string" where
  "identity f = (format f, internal f)"

definition noCollision :: "FileFormat list \<Rightarrow> bool" where
  "noCollision raw \<longleftrightarrow>
     (\<forall>f\<in>set raw. \<forall>g\<in>set raw. formatKey f = formatKey g \<longrightarrow> identity f = identity g)"

text \<open>The three flags of the catalog entry with a given identity key, if there is one.\<close>

definition flagsOf :: "FileFormat list \<Rightarrow> string \<times> string \<Rightarrow> (bool \<times> bool \<times> bool) option" where
  "flagsOf catalog i =
     map_option (\<lambda>g. (from_cap g, to_cap g, lossless g))
       (List.find (\<lambda>g. identity g = i) catalog)"

text \<open>
  The elements of a list in order of first occurrence, after those seen already.
\<close>

fun firstSeen :: "'a list \<Rightarrow> 'a list \<Rightarrow> 'a list" where
  "firstSeen seen [] = seen"
| "firstSeen seen (x # xs) =
     (if x \<in> set seen then firstSeen seen xs else firstSeen (seen @ [x]) xs)"


text \<open>\<open>x\<close> is the first element of \<open>xs\<close> that satisfies \<open>P\<close>.\<close>

definition firstAt :: "('a \<Rightarrow> bool) \<Rightarrow> 'a list \<Rightarrow> 'a \<Rightarrow> bool" where
  "firstAt P xs x \<longleftrightarrow> (\<exists>i<length xs. xs ! i = x \<and> P x \<and> (\<forall>j<i. \<not> P (xs ! j)))"


text \<open>
  A later event retries an earlier one when the earlier is a path that ended in the
  \<^verbatim>\<open>catch\<close> block and the later is a path with the same signature entering the \<^verbatim>\<open>try\<close>
  block. A trace has no retry when no event retries one before it.
\<close>

fun retried :: "event \<Rightarrow> event \<Rightarrow> bool" where
  "retried (Tried p (Failed e)) (Tried q r) = (signature q = signature p)"
| "retried _ _ = False"

definition noRetry :: "event list \<Rightarrow> bool" where
  "noRetry tr \<longleftrightarrow> (\<forall>j<length tr. \<forall>i<j. \<not> retried (tr ! i) (tr ! j))"

text \<open>
  The loop invariant of \<^verbatim>\<open>convertFiles\<close>: the dead-end memory and the set \<^verbatim>\<open>failedPaths\<close>
  hold exactly the paths that failed so far, and none was retried.
\<close>

definition consistent :: "'w exec \<Rightarrow> bool" where
  "consistent st \<longleftrightarrow>
     deadEndPaths (xgraph st) = failedOf (trace st) \<and>
     failedPaths st = keysOf (failedOf (trace st)) \<and>
     list_all (\<lambda>q. pathKey q \<noteq> None) (failedOf (trace st)) \<and>
     noRetry (trace st)"




text \<open>The snapshot as the map \<^verbatim>\<open>new Map(cacheJSON)\<close>; empty when there is no snapshot.\<close>

definition snapshotMap :: "(string \<times> FileFormat list) list option \<Rightarrow> (string \<times> FileFormat list) list" where
  "snapshotMap cacheJSON = (case cacheJSON of None \<Rightarrow> [] | Some entries \<Rightarrow> newMap entries)"


text \<open>
  The three shapes of a process: no call of \<^verbatim>\<open>getEngine\<close> yet; one run of
  \<^verbatim>\<open>initializeEngine\<close> started and not completed (in flight or rejected), every caller
  holding its promise; the run completed with engine \<open>e\<close>, every caller holding the promise
  or \<open>e\<close> itself.
\<close>

definition idle :: "Process \<Rightarrow> bool" where
  "idle ps \<longleftrightarrow> module ps = initialModule \<and> answers ps = [] \<and> settled ps = []"

definition building :: "Process \<Rightarrow> bool" where
  "building ps \<longleftrightarrow>
     module ps = \<lparr>engineInstance = None, initPromise = Some 0, started = 1\<rparr>
     \<and> (settled ps = [] \<or> settled ps = [(0, None)])
     \<and> (\<forall>a\<in>set (answers ps). a = Pending 0)"

definition readyWith :: "ConversionEngine \<Rightarrow> Process \<Rightarrow> bool" where
  "readyWith e ps \<longleftrightarrow>
     ready e
     \<and> module ps = \<lparr>engineInstance = Some (0, e), initPromise = Some 0, started = 1\<rparr>
     \<and> settled ps = [(0, Some (0, e))]
     \<and> (\<forall>a\<in>set (answers ps). a = Pending 0 \<or> a = Instance (0, e))"

definition moduleInv :: "Process \<Rightarrow> bool" where
  "moduleInv ps \<longleftrightarrow> idle ps \<or> building ps \<or> (\<exists>e. readyWith e ps)"


section \<open>A small installation, for concrete runs\<close>

text \<open>
  Formats, handlers named after what they do, and collaborators over a world that holds
  the paths the iterator will still yield and the number of conversions made so far:
  handler \<open>broken\<close> throws, \<open>hollow\<close> resolves to no file on the first conversion of the
  process, \<open>blank\<close> resolves to files without content, every other handler renames the
  files. \<open>exDirect\<close> yields the direct path between the two anchors instead.
\<close>

definition exFormat :: "string \<Rightarrow> string \<Rightarrow> bool \<Rightarrow> bool \<Rightarrow> FileFormat" where
  "exFormat ext m fr to =
     \<lparr>longName = ext, format = ext, extension = ext, mime = m, from_cap = fr, to_cap = to,
      internal = ext, category = ''image'', lossless = False\<rparr>"

definition exSvg :: FileFormat where "exSvg = exFormat ''svg'' ''image/svg+xml'' True False"

definition exPng :: FileFormat where "exPng = exFormat ''png'' ''image/png'' True True"

definition exGif :: FileFormat where "exGif = exFormat ''gif'' ''image/gif'' True True"

definition exSvgXml :: FileFormat where
  "exSvgXml = exFormat ''svg'' ''text/xml'' True False"

definition exJpgReader :: FileFormat where
  "exJpgReader =
     \<lparr>longName = ''JPEG'', format = ''jpeg'', extension = ''jpg'', mime = ''image/jpeg'',
      from_cap = True, to_cap = False, internal = ''jpeg'', category = ''image'', lossless = False\<rparr>"

definition exJpgWriter :: FileFormat where
  "exJpgWriter =
     \<lparr>longName = ''JPEG image'', format = ''jpeg'', extension = ''jpeg'', mime = ''image/jpeg'',
      from_cap = False, to_cap = True, internal = ''jpeg'', category = ''image'', lossless = True\<rparr>"

text \<open>Two formats with different identity keys that join to the same string.\<close>

definition exLeft :: FileFormat where
  "exLeft =
     \<lparr>longName = ''Left'', format = ''a::b'', extension = ''l'', mime = ''x/left'',
      from_cap = True, to_cap = False, internal = ''c'', category = ''data'', lossless = False\<rparr>"

definition exRight :: FileFormat where
  "exRight =
     \<lparr>longName = ''Right'', format = ''a'', extension = ''r'', mime = ''x/right'',
      from_cap = False, to_cap = True, internal = ''b::c'', category = ''data'', lossless = False\<rparr>"

definition exHandler :: "string \<Rightarrow> Handler" where
  "exHandler n = \<lparr>name = n, supportedFormats = Some [exSvg, exPng]\<rparr>"

definition exNode :: "string \<Rightarrow> FileFormat \<Rightarrow> ConvertPathNode" where
  "exNode n fmt = \<lparr>handler = Some (exHandler n), nformat = fmt\<rparr>"

definition exPath :: "string \<Rightarrow> path" where
  "exPath n = [\<lparr>handler = Some (exHandler n), nformat = exSvg\<rparr>,
               \<lparr>handler = Some (exHandler n), nformat = exPng\<rparr>]"

definition exConvert :: "string \<Rightarrow> nat \<Rightarrow> FileData list \<Rightarrow> FileFormat \<Rightarrow> FileData list option" where
  "exConvert n calls fs b =
     (if n = ''broken'' then None
      else if n = ''hollow'' \<and> calls = 0 then Some []
      else if n = ''blank'' then Some (map (\<lambda>f. f\<lparr>bytes := []\<rparr>) fs)
      else Some (map (\<lambda>f. f\<lparr>fname := fname f @ ''.'' @ extension b\<rparr>) fs))"

definition exCollab :: "(path list \<times> nat) collaborators" where
  "exCollab =
     \<lparr>handlerReady = (\<lambda>h w. name h \<noteq> ''lazy''),
      handlerInit = (\<lambda>h w. ((name h \<noteq> ''dead'', supportedFormats h), w)),
      doConvert = (\<lambda>h fs a b w. (exConvert (name h) (snd w) fs b, (fst w, Suc (snd w)))),
      searchNext = (\<lambda>fromNode toNode simpleMode deadEnds w.
         case fst w of [] \<Rightarrow> (None, w) | p # ps \<Rightarrow> (Some p, (ps, snd w))),
      graphInit = (\<lambda>c hs w. (True, w))\<rparr>"

definition exDirect :: "(path list \<times> nat) collaborators" where
  "exDirect =
     exCollab\<lparr>searchNext := (\<lambda>fromNode toNode simpleMode deadEnds w.
         case fst w of [] \<Rightarrow> (None, w) | p # ps \<Rightarrow> (Some [fromNode, toNode], (ps, snd w)))\<rparr>"

definition exEngine :: ConversionEngine where
  "exEngine = \<lparr>handlers = [exHandler ''good'', exHandler ''broken''],
               graph = \<lparr>deadEndPaths = [exPath ''stale'']\<rparr>,
               allFormats = [exSvg, exPng],
               supportedFormatCache = [],
               ready = True\<rparr>"

definition exFile :: File where
  "exFile = \<lparr>file_name = ''a.svg'', file_type = ''image/svg+xml'', file_content = [60, 115]\<rparr>"

definition exUpload :: File where
  "exUpload = \<lparr>file_name = ''Logo.v2.SVG'', file_type = ''image/svg+xml'', file_content = [60]\<rparr>"

definition exData :: "FileData list" where
  "exData = [\<lparr>fname = ''a.svg'', bytes = [60, 115]\<rparr>]"

definition exStart :: "path list \<Rightarrow> (path list \<times> nat) exec" where
  "exStart ys = \<lparr>world = (ys, 0), xgraph = \<lparr>deadEndPaths = []\<rparr>, failedPaths = {}, trace = []\<rparr>"


text \<open>
  For the bootstrap: handlers that are not initialised yet, a snapshot that lists \<open>good\<close>,
  an \<^verbatim>\<open>init\<close> that throws for \<open>dead\<close> and leaves PNG and GIF behind otherwise, one that
  throws for every handler, and a \<^verbatim>\<open>graph.init\<close> that throws. For the memoised engine: a
  sequence of events with calls before and after the completion of the run.
\<close>

definition exBootCollab :: "(path list \<times> nat) collaborators" where
  "exBootCollab =
     exCollab\<lparr>handlerInit := (\<lambda>h w.
        ((name h \<noteq> ''dead'', if name h = ''dead'' then None else Some [exPng, exGif]), w))\<rparr>"

definition exAllDead :: "(path list \<times> nat) collaborators" where
  "exAllDead = exCollab\<lparr>handlerInit := (\<lambda>h w. ((False, None), w))\<rparr>"

definition exNoGraph :: "(path list \<times> nat) collaborators" where
  "exNoGraph = exBootCollab\<lparr>graphInit := (\<lambda>c hs w. (False, w))\<rparr>"

definition exFresh :: "string \<Rightarrow> Handler" where
  "exFresh n = \<lparr>name = n, supportedFormats = None\<rparr>"

definition exSnapshot :: "(string \<times> FileFormat list) list" where
  "exSnapshot = [(''good'', [exSvg, exPng])]"

definition exEvents :: "process_event list" where
  "exEvents = [Call, Call, Completes 0 exEngine, Call, Completes 0 (exEngine\<lparr>allFormats := []\<rparr>), Call]"


section \<open>Properties of the catalog merge\<close>

lemma formatKey_mergeInto: "formatKey (mergeInto e f) = formatKey e"
  by (simp add: mergeInto_def formatKey_def)

lemma mergeLoop_map_of:
  "map_of (mergeLoop fs m) k =
     (case map_of m k of
        Some e \<Rightarrow> Some (foldl mergeInto e (filter (\<lambda>f. formatKey f = k) fs))
      | None \<Rightarrow>
          (case filter (\<lambda>f. formatKey f = k) fs of
             [] \<Rightarrow> None
           | f0 # rest \<Rightarrow> Some (foldl mergeInto f0 rest)))"
proof (induction fs arbitrary: m)
  case Nil
  show ?case by (simp split: option.splits)
next
  case (Cons f fs)
  show ?case
    by (cases "map_of m (formatKey f)")
       (auto simp: Cons.IH Let_def AList.update_conv' split: option.splits list.splits)
qed

lemma mergeLoop_keyset: "fst ` set (mergeLoop fs m) = fst ` set m \<union> formatKey ` set fs"
  by (induction fs arbitrary: m) (auto simp: Let_def AList.dom_update split: option.splits)

lemma mergeLoop_distinct: "distinct (map fst m) \<Longrightarrow> distinct (map fst (mergeLoop fs m))"
  by (induction fs arbitrary: m) (auto simp: Let_def AList.distinct_update split: option.splits)

lemma foldl_mergeInto_flags:
  "from_cap (foldl mergeInto e xs) = (from_cap e \<or> (\<exists>x\<in>set xs. from_cap x))"
  "to_cap (foldl mergeInto e xs) = (to_cap e \<or> (\<exists>x\<in>set xs. to_cap x))"
  "lossless (foldl mergeInto e xs) = (lossless e \<or> (\<exists>x\<in>set xs. lossless x))"
  by (induction xs arbitrary: e) (auto simp: mergeInto_def)

lemma foldl_mergeInto_fields:
  "longName (foldl mergeInto e xs) = longName e"
  "format (foldl mergeInto e xs) = format e"
  "extension (foldl mergeInto e xs) = extension e"
  "mime (foldl mergeInto e xs) = mime e"
  "internal (foldl mergeInto e xs) = internal e"
  "category (foldl mergeInto e xs) = category e"
  by (induction xs arbitrary: e) (auto simp: mergeInto_def)

lemma foldl_mergeInto_eq:
  "foldl mergeInto e xs =
     e\<lparr>from_cap := from_cap e \<or> (\<exists>x\<in>set xs. from_cap x),
       to_cap := to_cap e \<or> (\<exists>x\<in>set xs. to_cap x),
       lossless := lossless e \<or> (\<exists>x\<in>set xs. lossless x)\<rparr>"
  by (rule FileFormat.equality) (simp_all add: foldl_mergeInto_fields foldl_mergeInto_flags)

lemma set_update_cases:
  "(k', v') \<in> set (AList.update k v al) \<Longrightarrow> (k' = k \<and> v' = v) \<or> (k', v') \<in> set al"
  by (induction al) (auto split: if_splits)

lemma keyed_update: "keyed m \<Longrightarrow> formatKey v = k \<Longrightarrow> keyed (AList.update k v m)"
  unfolding keyed_def by (auto dest: set_update_cases)

lemma keyed_map_of: "keyed m \<Longrightarrow> map_of m k = Some e \<Longrightarrow> formatKey e = k"
  unfolding keyed_def by (auto dest: map_of_SomeD)

lemma mergeLoop_keyed: "keyed m \<Longrightarrow> keyed (mergeLoop fs m)"
proof (induction fs arbitrary: m)
  case Nil
  then show ?case by simp
next
  case (Cons f fs)
  show ?case
  proof (cases "map_of m (formatKey f)")
    case None
    with Cons show ?thesis by (simp add: keyed_update)
  next
    case (Some e)
    with Cons.prems have "formatKey (mergeInto e f) = formatKey f"
      by (simp add: formatKey_mergeInto keyed_map_of)
    with Cons Some show ?thesis by (simp add: keyed_update)
  qed
qed

lemma keyed_find: "keyed m \<Longrightarrow> List.find (\<lambda>g. formatKey g = k) (map snd m) = map_of m k"
  by (induction m) (auto simp: keyed_def)

lemma keyed_keys: "keyed m \<Longrightarrow> map formatKey (map snd m) = map fst m"
  by (induction m) (auto simp: keyed_def)

lemma keyed_Nil: "keyed []"
  by (simp add: keyed_def)

lemma find_mergeFormats:
  "List.find (\<lambda>g. formatKey g = k) (mergeFormats raw) =
     (case filter (\<lambda>f. formatKey f = k) raw of
        [] \<Rightarrow> None
      | f0 # rest \<Rightarrow> Some (foldl mergeInto f0 rest))"
  unfolding mergeFormats_def
  by (simp add: keyed_find [OF mergeLoop_keyed [OF keyed_Nil]] mergeLoop_map_of)

lemma mergeFormats_distinct: "distinct (map formatKey (mergeFormats raw))"
proof -
  have "map formatKey (mergeFormats raw) = map fst (mergeLoop raw [])"
    unfolding mergeFormats_def by (rule keyed_keys [OF mergeLoop_keyed [OF keyed_Nil]])
  moreover have "distinct (map fst (mergeLoop raw []))"
    by (rule mergeLoop_distinct) simp
  ultimately show ?thesis by simp
qed

lemma mergeFormats_keyset: "formatKey ` set (mergeFormats raw) = formatKey ` set raw"
proof -
  have "map formatKey (mergeFormats raw) = map fst (mergeLoop raw [])"
    unfolding mergeFormats_def by (rule keyed_keys [OF mergeLoop_keyed [OF keyed_Nil]])
  then have "set (map formatKey (mergeFormats raw)) = set (map fst (mergeLoop raw []))"
    by simp
  then have "formatKey ` set (mergeFormats raw) = fst ` set (mergeLoop raw [])"
    by (simp only: set_map)
  then show ?thesis by (simp add: mergeLoop_keyset)
qed

lemma mergeFormats_member:
  assumes "g \<in> set (mergeFormats raw)"
  shows "List.find (\<lambda>h. formatKey h = formatKey g) (mergeFormats raw) = Some g"
proof -
  from assms obtain k where kg: "(k, g) \<in> set (mergeLoop raw [])"
    unfolding mergeFormats_def by auto
  have k: "keyed (mergeLoop raw [])" by (rule mergeLoop_keyed [OF keyed_Nil])
  with kg have "formatKey g = k" unfolding keyed_def by auto
  moreover have "distinct (map fst (mergeLoop raw []))"
    by (rule mergeLoop_distinct) simp
  ultimately have "map_of (mergeLoop raw []) (formatKey g) = Some g"
    using kg by simp
  then show ?thesis
    unfolding mergeFormats_def by (simp add: keyed_find [OF k])
qed

lemma mergeFormats_entry:
  assumes "g \<in> set (mergeFormats raw)"
  shows "\<exists>f0 rest. filter (\<lambda>f. formatKey f = formatKey g) raw = f0 # rest \<and>
           g = f0\<lparr>from_cap := (\<exists>f\<in>set (f0 # rest). from_cap f),
                  to_cap := (\<exists>f\<in>set (f0 # rest). to_cap f),
                  lossless := (\<exists>f\<in>set (f0 # rest). lossless f)\<rparr>"
  using mergeFormats_member [OF assms]
  by (auto simp: find_mergeFormats foldl_mergeInto_eq split: list.splits)

lemma find_flags_mergeFormats:
  "map_option (\<lambda>g. (from_cap g, to_cap g, lossless g))
       (List.find (\<lambda>g. formatKey g = k) (mergeFormats raw)) =
     (if k \<in> formatKey ` set raw
      then Some ((\<exists>f\<in>set raw. formatKey f = k \<and> from_cap f),
                 (\<exists>f\<in>set raw. formatKey f = k \<and> to_cap f),
                 (\<exists>f\<in>set raw. formatKey f = k \<and> lossless f))
      else None)"
proof (cases "filter (\<lambda>f. formatKey f = k) raw")
  case Nil
  then have "k \<notin> formatKey ` set raw" by (auto simp: filter_empty_conv)
  with Nil show ?thesis by (simp add: find_mergeFormats)
next
  case (Cons f0 rest)
  then have s: "set (f0 # rest) = {f \<in> set raw. formatKey f = k}"
    by (metis set_filter)
  then have "k \<in> formatKey ` set raw" by auto
  moreover from s have "(\<exists>x\<in>set (f0 # rest). from_cap x) = (\<exists>f\<in>set raw. formatKey f = k \<and> from_cap f)"
    "(\<exists>x\<in>set (f0 # rest). to_cap x) = (\<exists>f\<in>set raw. formatKey f = k \<and> to_cap f)"
    "(\<exists>x\<in>set (f0 # rest). lossless x) = (\<exists>f\<in>set raw. formatKey f = k \<and> lossless f)"
    by blast+
  ultimately show ?thesis
    using Cons by (simp add: find_mergeFormats foldl_mergeInto_flags)
qed

lemma formatKey_identity: "formatKey f = fst (identity f) @ ''::'' @ snd (identity f)"
  by (simp add: formatKey_def identity_def)

lemma identity_formatKey: "identity f = identity g \<Longrightarrow> formatKey f = formatKey g"
  by (simp add: formatKey_identity)

lemma noCollision_eq:
  "noCollision raw \<Longrightarrow> f \<in> set raw \<Longrightarrow> g \<in> set raw \<Longrightarrow>
   (identity f = identity g) = (formatKey f = formatKey g)"
  unfolding noCollision_def by (blast dest: identity_formatKey)

lemma noCollision_set: "set raw' = set raw \<Longrightarrow> noCollision raw' = noCollision raw"
  by (simp add: noCollision_def)

lemma mergeFormats_source:
  assumes "g \<in> set (mergeFormats raw)"
  shows "\<exists>f0\<in>set raw. identity g = identity f0 \<and> formatKey g = formatKey f0"
proof -
  from mergeFormats_entry [OF assms] obtain f0 rest where
    f: "filter (\<lambda>f. formatKey f = formatKey g) raw = f0 # rest"
    and g: "g = f0\<lparr>from_cap := (\<exists>f\<in>set (f0 # rest). from_cap f),
                  to_cap := (\<exists>f\<in>set (f0 # rest). to_cap f),
                  lossless := (\<exists>f\<in>set (f0 # rest). lossless f)\<rparr>" by blast
  from f have "f0 \<in> set (filter (\<lambda>f. formatKey f = formatKey g) raw)" by simp
  then have "f0 \<in> set raw" "formatKey f0 = formatKey g" by simp_all
  moreover have "identity g = identity f0" by (subst g) (simp add: identity_def)
  ultimately show ?thesis by auto
qed

lemma mergeFormats_same_key:
  assumes nc: "noCollision raw" and g: "g \<in> set (mergeFormats raw)" and f: "f \<in> set raw"
  shows "(identity f = identity g) = (formatKey f = formatKey g)"
proof -
  from mergeFormats_source [OF g] obtain f0 where
    f0: "f0 \<in> set raw" "identity g = identity f0" "formatKey g = formatKey f0" by blast
  from noCollision_eq [OF nc f f0(1)] show ?thesis unfolding f0(2,3) .
qed

lemma distinct_identity: "distinct (map formatKey xs) \<Longrightarrow> distinct (map identity xs)"
  by (induction xs) (auto dest: identity_formatKey)

lemma mergeFormats_identities:
  assumes nc: "noCollision raw"
  shows "identity ` set (mergeFormats raw) = identity ` set raw"
proof
  show "identity ` set (mergeFormats raw) \<subseteq> identity ` set raw"
    by (auto dest: mergeFormats_source)
  show "identity ` set raw \<subseteq> identity ` set (mergeFormats raw)"
  proof
    fix i assume "i \<in> identity ` set raw"
    then obtain f where f: "f \<in> set raw" "i = identity f" by auto
    then have "formatKey f \<in> formatKey ` set (mergeFormats raw)"
      by (simp add: mergeFormats_keyset)
    then obtain g where g: "g \<in> set (mergeFormats raw)" "formatKey f = formatKey g" by auto
    from mergeFormats_same_key [OF nc g(1) f(1)] g(2) have "identity f = identity g" by blast
    with f(2) g(1) show "i \<in> identity ` set (mergeFormats raw)" by auto
  qed
qed

lemma mergeFormats_entry_identity:
  assumes nc: "noCollision raw" and g: "g \<in> set (mergeFormats raw)"
  shows "\<exists>f0 rest. filter (\<lambda>f. identity f = identity g) raw = f0 # rest \<and>
           g = f0\<lparr>from_cap := (\<exists>f\<in>set (f0 # rest). from_cap f),
                  to_cap := (\<exists>f\<in>set (f0 # rest). to_cap f),
                  lossless := (\<exists>f\<in>set (f0 # rest). lossless f)\<rparr>"
proof -
  have e: "filter (\<lambda>f. identity f = identity g) raw = filter (\<lambda>f. formatKey f = formatKey g) raw"
    by (rule filter_cong [OF refl]) (rule mergeFormats_same_key [OF nc g])
  from mergeFormats_entry [OF g] show ?thesis unfolding e .
qed

lemma flagsOf_mergeFormats:
  assumes nc: "noCollision raw"
  shows "flagsOf (mergeFormats raw) i =
     (if i \<in> identity ` set raw
      then Some ((\<exists>f\<in>set raw. identity f = i \<and> from_cap f),
                 (\<exists>f\<in>set raw. identity f = i \<and> to_cap f),
                 (\<exists>f\<in>set raw. identity f = i \<and> lossless f))
      else None)"
proof (cases "i \<in> identity ` set raw")
  case False
  then have "i \<notin> identity ` set (mergeFormats raw)"
    by (simp add: mergeFormats_identities [OF nc])
  then have "List.find (\<lambda>g. identity g = i) (mergeFormats raw) = None"
    by (auto simp: find_None_iff)
  with False show ?thesis by (simp add: flagsOf_def)
next
  case True
  then obtain f1 where f1: "f1 \<in> set raw" "i = identity f1" by auto
  have c: "\<And>g. g \<in> set (mergeFormats raw) \<Longrightarrow> (identity g = i) = (formatKey g = formatKey f1)"
    using mergeFormats_same_key [OF nc _ f1(1)] unfolding f1(2) by metis
  have "List.find (\<lambda>g. identity g = i) (mergeFormats raw)
      = List.find (\<lambda>g. formatKey g = formatKey f1) (mergeFormats raw)"
    by (rule find_cong [OF refl]) (rule c)
  then have a: "flagsOf (mergeFormats raw) i =
      Some ((\<exists>f\<in>set raw. formatKey f = formatKey f1 \<and> from_cap f),
            (\<exists>f\<in>set raw. formatKey f = formatKey f1 \<and> to_cap f),
            (\<exists>f\<in>set raw. formatKey f = formatKey f1 \<and> lossless f))"
    using f1(1) by (simp add: flagsOf_def find_flags_mergeFormats)
  have k: "\<And>f. f \<in> set raw \<Longrightarrow> (formatKey f = formatKey f1) = (identity f = i)"
    using noCollision_eq [OF nc _ f1(1)] unfolding f1(2) by metis
  have "(\<exists>f\<in>set raw. formatKey f = formatKey f1 \<and> from_cap f) = (\<exists>f\<in>set raw. identity f = i \<and> from_cap f)"
    "(\<exists>f\<in>set raw. formatKey f = formatKey f1 \<and> to_cap f) = (\<exists>f\<in>set raw. identity f = i \<and> to_cap f)"
    "(\<exists>f\<in>set raw. formatKey f = formatKey f1 \<and> lossless f) = (\<exists>f\<in>set raw. identity f = i \<and> lossless f)"
    using k by blast+
  with a True show ?thesis by simp
qed

lemma set_firstSeen: "set (firstSeen seen xs) = set seen \<union> set xs"
  by (induction xs arbitrary: seen) auto

lemma firstSeen_map:
  "inj_on h (set seen \<union> set xs) \<Longrightarrow> map h (firstSeen seen xs) = firstSeen (map h seen) (map h xs)"
proof (induction xs arbitrary: seen)
  case Nil
  show ?case by simp
next
  case (Cons x xs)
  from Cons.prems have mem: "(h x \<in> h ` set seen) = (x \<in> set seen)"
    by (auto simp: inj_on_def)
  from Cons.prems have i1: "inj_on h (set seen \<union> set xs)"
    by (auto simp: inj_on_def)
  from Cons.prems have i2: "inj_on h (set (seen @ [x]) \<union> set xs)"
    by (auto simp: inj_on_def)
  from Cons.IH [OF i1] Cons.IH [OF i2] mem show ?case by simp
qed

lemma mergeLoop_keys: "map fst (mergeLoop fs m) = firstSeen (map fst m) (map formatKey fs)"
proof (induction fs arbitrary: m)
  case Nil
  show ?case by simp
next
  case (Cons f fs)
  show ?case
  proof (cases "map_of m (formatKey f)")
    case None
    then have "formatKey f \<notin> fst ` set m" by (simp add: map_of_eq_None_iff)
    with None Cons.IH show ?thesis by (simp add: AList.update_keys)
  next
    case (Some e)
    then have "(formatKey f, e) \<in> set m" by (rule map_of_SomeD)
    then have "formatKey f \<in> fst ` set m" by force
    with Some Cons.IH show ?thesis by (simp add: AList.update_keys)
  qed
qed

lemma mergeFormats_keys: "map formatKey (mergeFormats raw) = firstSeen [] (map formatKey raw)"
proof -
  have "map formatKey (mergeFormats raw) = map fst (mergeLoop raw [])"
    unfolding mergeFormats_def by (rule keyed_keys [OF mergeLoop_keyed [OF keyed_Nil]])
  then show ?thesis by (simp add: mergeLoop_keys)
qed

lemma mergeFormats_order:
  assumes nc: "noCollision raw"
  shows "map identity (mergeFormats raw) = firstSeen [] (map identity raw)"
proof -
  let ?k = "\<lambda>i :: string \<times> string. fst i @ ''::'' @ snd i"
  have k: "\<And>xs. map formatKey xs = map ?k (map identity xs)"
    by (simp add: formatKey_identity)
  have inj: "inj_on ?k (identity ` set raw)"
  proof (rule inj_onI)
    fix x y assume "x \<in> identity ` set raw" "y \<in> identity ` set raw" and e: "?k x = ?k y"
    then obtain f g where fg: "f \<in> set raw" "g \<in> set raw" "x = identity f" "y = identity g" by auto
    with e have "formatKey f = formatKey g" by (simp add: formatKey_identity)
    with noCollision_eq [OF nc fg(1,2)] have "identity f = identity g" by blast
    with fg(3,4) show "x = y" by simp
  qed
  have "inj_on ?k (set [] \<union> set (map identity raw))" using inj by simp
  from firstSeen_map [OF this]
  have "map ?k (firstSeen [] (map identity raw)) = firstSeen [] (map formatKey raw)"
    by (simp add: k)
  with mergeFormats_keys [of raw]
  have e: "map ?k (map identity (mergeFormats raw)) = map ?k (firstSeen [] (map identity raw))"
    by (simp add: k)
  have "set (map identity (mergeFormats raw)) \<union> set (firstSeen [] (map identity raw))
      = identity ` set raw"
    by (simp add: set_firstSeen mergeFormats_identities [OF nc])
  with inj have "inj_on ?k (set (map identity (mergeFormats raw)) \<union> set (firstSeen [] (map identity raw)))"
    by simp
  from inj_on_map_eq_map [OF this] e show ?thesis by simp
qed


text \<open>
  C5, as the code has it. Take contributions without collision. The merged catalog has
  exactly one format for every identity key that occurs among them. That format is the
  first contribution with the key, with each of \<open>from\<close>, \<open>to\<close> and \<open>lossless\<close> set to
  the disjunction over all contributions with the key. The three flags found under an
  identity key do not depend on the order (or the multiplicity) of the contributions.
  Merging \<^verbatim>\<open>{from:true,to:false,lossless:false}\<close> with \<^verbatim>\<open>{from:false,to:true,lossless:true}\<close>
  under one identity key gives one format with all three flags set, in either order.
  The identity keys of the catalog are those of the contributions, in order of first
  occurrence.
\<close>

theorem mergeFormats_flags_union:
  assumes nc: "noCollision raw"
  shows "distinct (map identity (mergeFormats raw))
   \<and> identity ` set (mergeFormats raw) = identity ` set raw
   \<and> (\<forall>g\<in>set (mergeFormats raw).
        \<exists>f0 rest. filter (\<lambda>f. identity f = identity g) raw = f0 # rest \<and>
           g = f0\<lparr>from_cap := (\<exists>f\<in>set (f0 # rest). from_cap f),
                  to_cap := (\<exists>f\<in>set (f0 # rest). to_cap f),
                  lossless := (\<exists>f\<in>set (f0 # rest). lossless f)\<rparr>)
   \<and> (\<forall>raw' i. set raw' = set raw \<longrightarrow>
          flagsOf (mergeFormats raw') i = flagsOf (mergeFormats raw) i)
   \<and> (\<forall>a b. identity a = identity b \<and> from_cap a \<and> \<not> to_cap a \<and> \<not> lossless a \<and>
          \<not> from_cap b \<and> to_cap b \<and> lossless b \<longrightarrow>
          (\<exists>g. mergeFormats [a, b] = [g] \<and> from_cap g \<and> to_cap g \<and> lossless g) \<and>
          (\<exists>g. mergeFormats [b, a] = [g] \<and> from_cap g \<and> to_cap g \<and> lossless g))
   \<and> map identity (mergeFormats raw) = firstSeen [] (map identity raw)"
proof (intro conjI)
  show "distinct (map identity (mergeFormats raw))"
    by (rule distinct_identity [OF mergeFormats_distinct])
  show "identity ` set (mergeFormats raw) = identity ` set raw"
    by (rule mergeFormats_identities [OF nc])
  show "\<forall>g\<in>set (mergeFormats raw).
        \<exists>f0 rest. filter (\<lambda>f. identity f = identity g) raw = f0 # rest \<and>
           g = f0\<lparr>from_cap := (\<exists>f\<in>set (f0 # rest). from_cap f),
                  to_cap := (\<exists>f\<in>set (f0 # rest). to_cap f),
                  lossless := (\<exists>f\<in>set (f0 # rest). lossless f)\<rparr>"
  proof
    fix g assume "g \<in> set (mergeFormats raw)"
    from mergeFormats_entry_identity [OF nc this]
    show "\<exists>f0 rest. filter (\<lambda>f. identity f = identity g) raw = f0 # rest \<and>
           g = f0\<lparr>from_cap := (\<exists>f\<in>set (f0 # rest). from_cap f),
                  to_cap := (\<exists>f\<in>set (f0 # rest). to_cap f),
                  lossless := (\<exists>f\<in>set (f0 # rest). lossless f)\<rparr>" .
  qed
  show "\<forall>raw' i. set raw' = set raw \<longrightarrow>
          flagsOf (mergeFormats raw') i = flagsOf (mergeFormats raw) i"
  proof (intro allI impI)
    fix raw' i assume s: "set raw' = set raw"
    from nc noCollision_set [OF s] have "noCollision raw'" by simp
    from flagsOf_mergeFormats [OF this] flagsOf_mergeFormats [OF nc] s
    show "flagsOf (mergeFormats raw') i = flagsOf (mergeFormats raw) i" by simp
  qed
  show "\<forall>a b. identity a = identity b \<and> from_cap a \<and> \<not> to_cap a \<and> \<not> lossless a \<and>
          \<not> from_cap b \<and> to_cap b \<and> lossless b \<longrightarrow>
          (\<exists>g. mergeFormats [a, b] = [g] \<and> from_cap g \<and> to_cap g \<and> lossless g) \<and>
          (\<exists>g. mergeFormats [b, a] = [g] \<and> from_cap g \<and> to_cap g \<and> lossless g)"
  proof (intro allI impI)
    fix a b
    assume a: "identity a = identity b \<and> from_cap a \<and> \<not> to_cap a \<and> \<not> lossless a \<and>
          \<not> from_cap b \<and> to_cap b \<and> lossless b"
    then have "formatKey a = formatKey b" by (blast intro: identity_formatKey)
    with a show "(\<exists>g. mergeFormats [a, b] = [g] \<and> from_cap g \<and> to_cap g \<and> lossless g) \<and>
          (\<exists>g. mergeFormats [b, a] = [g] \<and> from_cap g \<and> to_cap g \<and> lossless g)"
      by (simp add: mergeFormats_def mergeInto_def)
  qed
  show "map identity (mergeFormats raw) = firstSeen [] (map identity raw)"
    by (rule mergeFormats_order [OF nc])
qed


text \<open>
  A run of C5: a reader and a writer of JPEG with PNG between them, merged in both
  orders.
\<close>

theorem mergeFormats_flags_union_witness:
  "noCollision [exJpgReader, exPng, exJpgWriter]
   \<and> mergeFormats [exJpgReader, exPng, exJpgWriter]
       = [exJpgReader\<lparr>to_cap := True, lossless := True\<rparr>, exPng]
   \<and> mergeFormats [exJpgWriter, exPng, exJpgReader] = [exJpgWriter\<lparr>from_cap := True\<rparr>, exPng]
   \<and> flagsOf (mergeFormats [exJpgWriter, exPng, exJpgReader]) (''jpeg'', ''jpeg'') = Some (True, True, True)
   \<and> flagsOf (mergeFormats [exJpgReader, exPng, exJpgWriter]) (''jpeg'', ''jpeg'') = Some (True, True, True)
   \<and> map identity (mergeFormats [exJpgReader, exPng, exJpgWriter]) = [(''jpeg'', ''jpeg''), (''png'', ''png'')]"
proof -
  have nc: "noCollision [exJpgReader, exPng, exJpgWriter]"
    by (simp add: noCollision_def formatKey_def identity_def exJpgReader_def exJpgWriter_def
        exPng_def exFormat_def)
  from mergeFormats_flags_union [OF nc] nc show ?thesis
    by (simp add: mergeFormats_def mergeInto_def formatKey_def flagsOf_def identity_def
        exJpgReader_def exJpgWriter_def exPng_def exFormat_def)
qed


text \<open>
  C5 as the spec words it does not hold. The result of the merge depends on the order of
  the contributions: the fields other than the flags are those of the first contribution
  (here the extension, \<open>jpg\<close> or \<open>jpeg\<close>, of two formats with one identity key). And two
  formats with different identity keys that join to the same string are merged into one.
\<close>

theorem mergeFormats_order_counterexample:
  "mergeFormats [exJpgReader, exJpgWriter] \<noteq> mergeFormats [exJpgWriter, exJpgReader]
   \<and> identity exJpgReader = identity exJpgWriter
   \<and> identity exLeft \<noteq> identity exRight
   \<and> mergeFormats [exLeft, exRight] = [exLeft\<lparr>to_cap := True\<rparr>]"
  by (simp add: mergeFormats_def mergeInto_def formatKey_def identity_def exJpgReader_def
      exJpgWriter_def exLeft_def exRight_def)


section \<open>Properties of format detection\<close>

lemma find_firstAt: "List.find P xs = Some x \<longleftrightarrow> firstAt P xs x"
  unfolding firstAt_def by (auto simp: find_Some_iff)

lemma find_None_set: "List.find P xs = None \<longleftrightarrow> (\<forall>x\<in>set xs. \<not> P x)"
  by (auto simp: find_None_iff)

lemma find_Some_set: "List.find P xs = Some y \<Longrightarrow> y \<in> set xs \<and> P y"
  by (auto simp: find_Some_iff)

lemma find_ex_Some: "\<exists>x\<in>set xs. P x \<Longrightarrow> \<exists>y. List.find P xs = Some y"
  by (cases "List.find P xs") (auto simp: find_None_iff)


text \<open>
  C6. With \<open>ext\<close> the lower-cased text after the last dot of the file name and \<open>m\<close> the
  normalised type of the file (whatever the two builtins \<open>lower\<close> and \<open>norm\<close> compute), \<^verbatim>\<open>detectInputFormat\<close> returns the first format of the catalog
  in tier 1 (readable, same extension, and same mime or no mime at all); if there is none,
  the first in tier 2 (readable, same extension); if there is none and the file has a
  mime, the first in tier 3 (readable, same mime); and null exactly when no tier applies.
  When the file has a mime and the catalog holds a format matching extension and mime and
  another matching the extension only, a match of extension and mime is returned, never
  the other one.
\<close>

theorem detectInputFormat_tiers:
  fixes lower norm fl cat
  defines "ext \<equiv> lower (splitPop (file_name fl))"
    and "m \<equiv> norm (file_type fl)"
    and "r \<equiv> detectInputFormat lower norm fl cat"
  shows "((\<exists>f\<in>set cat. tier1 lower ext m f) \<longrightarrow> (\<exists>f. r = Some f \<and> firstAt (tier1 lower ext m) cat f))
       \<and> (\<not> (\<exists>f\<in>set cat. tier1 lower ext m f) \<and> (\<exists>f\<in>set cat. tier2 lower ext f) \<longrightarrow>
            (\<exists>f. r = Some f \<and> firstAt (tier2 lower ext) cat f))
       \<and> (\<not> (\<exists>f\<in>set cat. tier2 lower ext f) \<and> m \<noteq> [] \<and> (\<exists>f\<in>set cat. tier3 m f) \<longrightarrow>
            (\<exists>f. r = Some f \<and> firstAt (tier3 m) cat f))
       \<and> (r = None \<longleftrightarrow>
            \<not> (\<exists>f\<in>set cat. tier2 lower ext f) \<and> (m = [] \<or> \<not> (\<exists>f\<in>set cat. tier3 m f)))
       \<and> (\<forall>f g. f \<in> set cat \<and> g \<in> set cat \<and> m \<noteq> [] \<and> tier1 lower ext m f \<and> tier2 lower ext g \<and> mime g \<noteq> m \<longrightarrow>
            (\<exists>h. r = Some h \<and> tier1 lower ext m h \<and> mime h = m \<and> h \<noteq> g))"
proof -
  have t12: "\<And>f. tier1 lower ext m f \<Longrightarrow> tier2 lower ext f"
    by (simp add: tier1_def tier2_def)
  have r: "r = (case List.find (tier1 lower ext m) cat of
                  Some f \<Rightarrow> Some f
                | None \<Rightarrow> (case List.find (tier2 lower ext) cat of
                              Some f \<Rightarrow> Some f
                            | None \<Rightarrow> if m \<noteq> [] then List.find (tier3 m) cat else None))"
    unfolding r_def ext_def m_def detectInputFormat_def Let_def by (rule refl)
  have c1: "(\<exists>f\<in>set cat. tier1 lower ext m f) \<longrightarrow> (\<exists>f. r = Some f \<and> firstAt (tier1 lower ext m) cat f)"
  proof
    assume "\<exists>f\<in>set cat. tier1 lower ext m f"
    then obtain y where y: "List.find (tier1 lower ext m) cat = Some y" by (auto dest!: find_ex_Some)
    then have "r = Some y" by (simp add: r)
    with y show "\<exists>f. r = Some f \<and> firstAt (tier1 lower ext m) cat f" by (simp add: find_firstAt)
  qed
  have c2: "\<not> (\<exists>f\<in>set cat. tier1 lower ext m f) \<and> (\<exists>f\<in>set cat. tier2 lower ext f) \<longrightarrow>
            (\<exists>f. r = Some f \<and> firstAt (tier2 lower ext) cat f)"
  proof
    assume a: "\<not> (\<exists>f\<in>set cat. tier1 lower ext m f) \<and> (\<exists>f\<in>set cat. tier2 lower ext f)"
    then have n: "List.find (tier1 lower ext m) cat = None" by (simp add: find_None_set)
    from a obtain y where y: "List.find (tier2 lower ext) cat = Some y" by (auto dest!: find_ex_Some)
    with n have "r = Some y" by (simp add: r)
    with y show "\<exists>f. r = Some f \<and> firstAt (tier2 lower ext) cat f" by (simp add: find_firstAt)
  qed
  have c3: "\<not> (\<exists>f\<in>set cat. tier2 lower ext f) \<and> m \<noteq> [] \<and> (\<exists>f\<in>set cat. tier3 m f) \<longrightarrow>
            (\<exists>f. r = Some f \<and> firstAt (tier3 m) cat f)"
  proof
    assume a: "\<not> (\<exists>f\<in>set cat. tier2 lower ext f) \<and> m \<noteq> [] \<and> (\<exists>f\<in>set cat. tier3 m f)"
    then have n2: "List.find (tier2 lower ext) cat = None" by (simp add: find_None_set)
    from a t12 have n1: "List.find (tier1 lower ext m) cat = None" by (auto simp: find_None_set)
    from a obtain y where y: "List.find (tier3 m) cat = Some y" by (auto dest!: find_ex_Some)
    with n1 n2 a have "r = Some y" by (simp add: r)
    with y show "\<exists>f. r = Some f \<and> firstAt (tier3 m) cat f" by (simp add: find_firstAt)
  qed
  have c4: "r = None \<longleftrightarrow>
            \<not> (\<exists>f\<in>set cat. tier2 lower ext f) \<and> (m = [] \<or> \<not> (\<exists>f\<in>set cat. tier3 m f))"
  proof (cases "List.find (tier1 lower ext m) cat")
    case (Some y)
    then have "y \<in> set cat \<and> tier2 lower ext y" using t12 by (auto dest: find_Some_set)
    with Some show ?thesis by (auto simp: r)
  next
    case n1: None
    show ?thesis
    proof (cases "List.find (tier2 lower ext) cat")
      case (Some y)
      then have "y \<in> set cat \<and> tier2 lower ext y" by (auto dest: find_Some_set)
      with Some n1 show ?thesis by (auto simp: r)
    next
      case None
      then have "\<not> (\<exists>f\<in>set cat. tier2 lower ext f)" by (simp add: find_None_set)
      moreover from None n1 have "r = (if m \<noteq> [] then List.find (tier3 m) cat else None)"
        by (simp add: r)
      ultimately show ?thesis by (auto simp: find_None_set)
    qed
  qed
  have c5: "\<forall>f g. f \<in> set cat \<and> g \<in> set cat \<and> m \<noteq> [] \<and> tier1 lower ext m f \<and> tier2 lower ext g \<and> mime g \<noteq> m \<longrightarrow>
            (\<exists>h. r = Some h \<and> tier1 lower ext m h \<and> mime h = m \<and> h \<noteq> g)"
  proof (intro allI impI)
    fix f g
    assume a: "f \<in> set cat \<and> g \<in> set cat \<and> m \<noteq> [] \<and> tier1 lower ext m f \<and> tier2 lower ext g \<and> mime g \<noteq> m"
    then have "\<exists>x\<in>set cat. tier1 lower ext m x" by blast
    then obtain y where y: "List.find (tier1 lower ext m) cat = Some y" by (auto dest!: find_ex_Some)
    then have "r = Some y" by (simp add: r)
    moreover from y have "tier1 lower ext m y" by (auto simp: find_Some_iff)
    moreover from this a have "mime y = m" by (simp add: tier1_def)
    ultimately show "\<exists>h. r = Some h \<and> tier1 lower ext m h \<and> mime h = m \<and> h \<noteq> g" using a by auto
  qed
  from c1 c2 c3 c4 c5 show ?thesis by blast
qed


text \<open>
  A run of C6: the upload \<open>Logo.v2.SVG\<close> of type \<open>image/svg+xml\<close>, against a catalog whose
  first entry matches the extension only.
\<close>

theorem detectInputFormat_tiers_witness:
  "detectInputFormat asciiLowerCase (\<lambda>m. m) exUpload [exSvgXml, exPng, exSvg] = Some exSvg
   \<and> tier1 asciiLowerCase ''svg'' ''image/svg+xml'' exSvg
   \<and> tier2 asciiLowerCase ''svg'' exSvgXml
   \<and> mime exSvgXml \<noteq> ''image/svg+xml''"
proof -
  have a: "detectInputFormat asciiLowerCase (\<lambda>m. m) exUpload [exSvgXml, exPng, exSvg] = Some exSvg"
    by code_simp
  have b: "tier1 asciiLowerCase ''svg'' ''image/svg+xml'' exSvg" by code_simp
  have c: "tier2 asciiLowerCase ''svg'' exSvgXml" by code_simp
  have d: "mime exSvgXml \<noteq> ''image/svg+xml''" by code_simp
  from detectInputFormat_tiers [where fl = exUpload and norm = "\<lambda>m. m" and lower = asciiLowerCase
      and cat = "[exSvgXml, exPng, exSvg]"] a b c d
  show ?thesis by blast
qed


section \<open>Properties of the executor\<close>

lemma failedOf_append: "failedOf (xs @ ys) = failedOf xs @ failedOf ys"
  by (simp add: failedOf_def)

lemma failedOf_single:
  "failedOf [Tried p (Failed e)] = [p]" "failedOf [Tried p NoFiles] = []"
  "failedOf [Tried p Succeeded] = []" "failedOf [Skipped p] = []"
  "failedOf [BadKey p] = []" "failedOf [Exhausted] = []"
  by (simp_all add: failedOf_def)

lemma keysOf_iff: "k \<in> keysOf ps \<longleftrightarrow> (\<exists>p\<in>set ps. pathKey p = Some k)"
proof
  assume "k \<in> keysOf ps"
  then show "\<exists>p\<in>set ps. pathKey p = Some k"
    by (auto simp: keysOf_def map_filter_def)
next
  assume "\<exists>p\<in>set ps. pathKey p = Some k"
  then obtain p where p: "p \<in> set ps" "pathKey p = Some k" by blast
  then have "k = the (pathKey p)" by simp
  with p show "k \<in> keysOf ps"
    unfolding keysOf_def map_filter_def by (simp add: image_iff) (metis option.sel)
qed

lemma keysOf_append: "keysOf (xs @ ys) = keysOf xs \<union> keysOf ys"
  by (auto simp: keysOf_iff)

lemma keysOf_single: "pathKey p = Some k \<Longrightarrow> keysOf [p] = {k}"
  by (auto simp: keysOf_iff)

lemma nodeKey_signature:
  "map nodeKey p = map (\<lambda>(h, i). map_option (\<lambda>n. n @ '':'' @ i) h) (signature p)"
  by (simp add: signature_def nodeKey_def option.map_comp comp_def)

lemma signature_pathKey: "signature p = signature q \<Longrightarrow> pathKey p = pathKey q"
  by (simp add: pathKey_def nodeKey_signature)



lemma failedOf_mem:
  "p \<in> set (failedOf tr) \<longleftrightarrow> (\<exists>e. Tried p (Failed e) \<in> set tr)"
  by (auto simp: failedOf_def split: event.splits attempt.splits)

lemma retried_iff:
  "retried a b \<longleftrightarrow> (\<exists>p e q r. a = Tried p (Failed e) \<and> b = Tried q r \<and> signature q = signature p)"
  by (cases "(a, b)" rule: retried.cases) simp_all

lemma noRetry_iff:
  "noRetry tr \<longleftrightarrow>
     (\<forall>i j p e q r. i < j \<and> j < length tr \<and> tr ! i = Tried p (Failed e) \<and> tr ! j = Tried q r
        \<longrightarrow> signature q \<noteq> signature p)"
proof
  assume n: "noRetry tr"
  show "\<forall>i j p e q r. i < j \<and> j < length tr \<and> tr ! i = Tried p (Failed e) \<and> tr ! j = Tried q r
        \<longrightarrow> signature q \<noteq> signature p"
  proof (intro allI impI)
    fix i j p e q r
    assume a: "i < j \<and> j < length tr \<and> tr ! i = Tried p (Failed e) \<and> tr ! j = Tried q r"
    with n have "\<not> retried (tr ! i) (tr ! j)" unfolding noRetry_def by blast
    with a show "signature q \<noteq> signature p" by simp
  qed
next
  assume r: "\<forall>i j p e q r. i < j \<and> j < length tr \<and> tr ! i = Tried p (Failed e) \<and> tr ! j = Tried q r
        \<longrightarrow> signature q \<noteq> signature p"
  show "noRetry tr"
    unfolding noRetry_def
  proof (intro allI impI)
    fix j i assume j: "j < length tr" and i: "i < j"
    show "\<not> retried (tr ! i) (tr ! j)"
    proof
      assume "retried (tr ! i) (tr ! j)"
      then obtain p e q r' where "tr ! i = Tried p (Failed e)" "tr ! j = Tried q r'"
        "signature q = signature p" unfolding retried_iff by blast
      with r i j show False by blast
    qed
  qed
qed

lemma noRetry_snoc:
  "noRetry (tr @ [ev]) \<longleftrightarrow>
     noRetry tr \<and> (\<forall>q r. ev = Tried q r \<longrightarrow> (\<forall>p\<in>set (failedOf tr). signature q \<noteq> signature p))"
proof
  assume n: "noRetry (tr @ [ev])"
  have "noRetry tr"
    unfolding noRetry_iff
  proof (intro allI impI)
    fix i j p e q r
    assume a: "i < j \<and> j < length tr \<and> tr ! i = Tried p (Failed e) \<and> tr ! j = Tried q r"
    then have "i < j \<and> j < length (tr @ [ev]) \<and> (tr @ [ev]) ! i = Tried p (Failed e)
        \<and> (tr @ [ev]) ! j = Tried q r"
      by (simp add: nth_append)
    with n show "signature q \<noteq> signature p" unfolding noRetry_iff by blast
  qed
  moreover have "\<forall>q r. ev = Tried q r \<longrightarrow> (\<forall>p\<in>set (failedOf tr). signature q \<noteq> signature p)"
  proof (intro allI impI ballI)
    fix q r p
    assume ev: "ev = Tried q r" and "p \<in> set (failedOf tr)"
    then obtain e where "Tried p (Failed e) \<in> set tr" by (auto simp: failedOf_mem)
    then obtain i where i: "i < length tr" "tr ! i = Tried p (Failed e)"
      by (auto simp: in_set_conv_nth)
    then have "i < length tr \<and> length tr < length (tr @ [ev])
        \<and> (tr @ [ev]) ! i = Tried p (Failed e) \<and> (tr @ [ev]) ! length tr = Tried q r"
      using ev by (simp add: nth_append)
    with n show "signature q \<noteq> signature p" unfolding noRetry_iff by blast
  qed
  ultimately show "noRetry tr \<and>
      (\<forall>q r. ev = Tried q r \<longrightarrow> (\<forall>p\<in>set (failedOf tr). signature q \<noteq> signature p))" ..
next
  assume r: "noRetry tr \<and>
      (\<forall>q r. ev = Tried q r \<longrightarrow> (\<forall>p\<in>set (failedOf tr). signature q \<noteq> signature p))"
  show "noRetry (tr @ [ev])"
    unfolding noRetry_iff
  proof (intro allI impI)
    fix i j p e q' r'
    assume a: "i < j \<and> j < length (tr @ [ev]) \<and> (tr @ [ev]) ! i = Tried p (Failed e)
        \<and> (tr @ [ev]) ! j = Tried q' r'"
    show "signature q' \<noteq> signature p"
    proof (cases "j < length tr")
      case True
      with a have "i < j \<and> j < length tr \<and> tr ! i = Tried p (Failed e) \<and> tr ! j = Tried q' r'"
        by (auto simp: nth_append)
      with r show ?thesis unfolding noRetry_iff by blast
    next
      case False
      with a have j: "j = length tr" and i: "i < length tr" by auto
      with a have ev: "ev = Tried q' r'" and "tr ! i = Tried p (Failed e)"
        by (simp_all add: nth_append)
      with i have "Tried p (Failed e) \<in> set tr" by (metis nth_mem)
      then have "p \<in> set (failedOf tr)" by (auto simp: failedOf_mem)
      with r ev show ?thesis by blast
    qed
  qed
qed

lemma noRetry_snoc_other:
  "noRetry tr \<Longrightarrow> (\<And>q r. ev \<noteq> Tried q r) \<Longrightarrow> noRetry (tr @ [ev])"
  by (simp add: noRetry_snoc)

lemma noRetry_snoc_tried:
  assumes "noRetry tr" and "pathKey q = Some k" and "k \<notin> keysOf (failedOf tr)"
  shows "noRetry (tr @ [Tried q r])"
proof -
  have "\<forall>p\<in>set (failedOf tr). signature q \<noteq> signature p"
  proof
    fix p assume "p \<in> set (failedOf tr)"
    with assms(3) have "pathKey p \<noteq> Some k" by (auto simp: keysOf_iff)
    with assms(2) show "signature q \<noteq> signature p" by (auto dest: signature_pathKey)
  qed
  with assms(1) show ?thesis by (simp add: noRetry_snoc)
qed


text \<open>
  Partial correctness of the loop: an invariant \<open>I\<close> of the loop state that every
  \<^verbatim>\<open>continue\<close> preserves, and a property \<open>Q\<close> that every way of leaving the loop
  establishes, give \<open>Q\<close> of the result whenever the loop settles.
\<close>

lemma convertLoop_rule:
  assumes run: "convertLoop C f t s fda inF outF st = Some y"
    and init: "I st"
    and exhausted: "\<And>st w1. I st \<Longrightarrow>
          searchNext C f t s (deadEndPaths (xgraph st)) (world st) = (None, w1) \<Longrightarrow>
          Q (Inl (NoWorkingPath (noPathMessage inF outF)),
             st\<lparr>world := w1, trace := trace st @ [Exhausted]\<rparr>)"
    and badkey: "\<And>st p w1. I st \<Longrightarrow>
          searchNext C f t s (deadEndPaths (xgraph st)) (world st) = (Some p, w1) \<Longrightarrow>
          pathKey p = None \<Longrightarrow>
          Q (Inl TypeError, st\<lparr>world := w1, trace := trace st @ [BadKey p]\<rparr>)"
    and skipped: "\<And>st p w1 key. I st \<Longrightarrow>
          searchNext C f t s (deadEndPaths (xgraph st)) (world st) = (Some p, w1) \<Longrightarrow>
          pathKey p = Some key \<Longrightarrow> key \<in> failedPaths st \<Longrightarrow>
          I (st\<lparr>world := w1, trace := trace st @ [Skipped p]\<rparr>)"
    and failed: "\<And>st p w1 key err w2. I st \<Longrightarrow>
          searchNext C f t s (deadEndPaths (xgraph st)) (world st) = (Some p, w1) \<Longrightarrow>
          pathKey p = Some key \<Longrightarrow> key \<notin> failedPaths st \<Longrightarrow>
          runHops C p fda w1 = (Inl err, w2) \<Longrightarrow>
          I (st\<lparr>world := w2, xgraph := addDeadEndPath p (xgraph st),
                failedPaths := insert key (failedPaths st),
                trace := trace st @ [Tried p (Failed err)]\<rparr>)"
    and nofiles: "\<And>st p w1 key w2. I st \<Longrightarrow>
          searchNext C f t s (deadEndPaths (xgraph st)) (world st) = (Some p, w1) \<Longrightarrow>
          pathKey p = Some key \<Longrightarrow> key \<notin> failedPaths st \<Longrightarrow>
          runHops C p fda w1 = (Inr [], w2) \<Longrightarrow>
          I (st\<lparr>world := w2, trace := trace st @ [Tried p NoFiles]\<rparr>)"
    and success: "\<And>st p w1 key cur w2. I st \<Longrightarrow>
          searchNext C f t s (deadEndPaths (xgraph st)) (world st) = (Some p, w1) \<Longrightarrow>
          pathKey p = Some key \<Longrightarrow> key \<notin> failedPaths st \<Longrightarrow>
          runHops C p fda w1 = (Inr cur, w2) \<Longrightarrow> cur \<noteq> [] \<Longrightarrow>
          Q (Inr \<lparr>files = cur, path = p\<rparr>,
             st\<lparr>world := w2, trace := trace st @ [Tried p Succeeded]\<rparr>)"
  shows "Q y"
proof -
  have "(C', f', t', s', fda', inF', outF') = (C, f, t, s, fda, inF, outF) \<longrightarrow> I st \<longrightarrow> Q y"
    if "convertLoop C' f' t' s' fda' inF' outF' st = Some y" for C' f' t' s' fda' inF' outF'
    using that
  proof (induction rule: convertLoop.raw_induct[rotated 1, consumes 1])
    case (1 loop C' f' t' s' fda' inF' outF' st y)
    show ?case
    proof (intro impI)
      assume eq: "(C', f', t', s', fda', inF', outF') = (C, f, t, s, fda, inF, outF)"
      assume c: "I st"
      from 1(1) eq have IH: "\<And>st y. loop C f t s fda inF outF st = Some y \<Longrightarrow> I st \<Longrightarrow> Q y"
        by blast
      from eq have e: "C' = C" "f' = f" "t' = t" "s' = s" "fda' = fda" "inF' = inF" "outF' = outF"
        by simp_all
      note body = 1(2) [unfolded e]
      obtain po w1 where sn: "searchNext C f t s (deadEndPaths (xgraph st)) (world st) = (po, w1)"
        by (cases "searchNext C f t s (deadEndPaths (xgraph st)) (world st)")
      show "Q y"
      proof (cases po)
        case None
        with sn body have "y = (Inl (NoWorkingPath (noPathMessage inF outF)),
            st\<lparr>world := w1, trace := trace st @ [Exhausted]\<rparr>)" by simp
        with exhausted [OF c] sn None show ?thesis by simp
      next
        case (Some p)
        show ?thesis
        proof (cases "pathKey p")
          case None
          with sn Some body have "y = (Inl TypeError, st\<lparr>world := w1, trace := trace st @ [BadKey p]\<rparr>)"
            by simp
          with badkey [OF c] sn Some None show ?thesis by simp
        next
          case k: (Some key)
          show ?thesis
          proof (cases "key \<in> failedPaths st")
            case True
            let ?st1 = "st\<lparr>world := w1, trace := trace st @ [Skipped p]\<rparr>"
            from skipped [OF c] sn Some k True have "I ?st1" by simp
            moreover from sn Some k True body have "loop C f t s fda inF outF ?st1 = Some y"
              by simp
            ultimately show ?thesis using IH by blast
          next
            case False
            obtain r w2 where rh: "runHops C p fda w1 = (r, w2)" by (cases "runHops C p fda w1")
            show ?thesis
            proof (cases r)
              case (Inl err)
              let ?st1 = "st\<lparr>world := w2, xgraph := addDeadEndPath p (xgraph st),
                            failedPaths := insert key (failedPaths st),
                            trace := trace st @ [Tried p (Failed err)]\<rparr>"
              from failed [OF c] sn Some k False rh Inl have "I ?st1" by simp
              moreover from sn Some k False rh Inl body
              have "loop C f t s fda inF outF ?st1 = Some y" by simp
              ultimately show ?thesis using IH by blast
            next
              case (Inr cur)
              show ?thesis
              proof (cases "cur = []")
                case True
                let ?st1 = "st\<lparr>world := w2, trace := trace st @ [Tried p NoFiles]\<rparr>"
                from nofiles [OF c] sn Some k False rh Inr True have "I ?st1" by simp
                moreover from sn Some k False rh Inr True body
                have "loop C f t s fda inF outF ?st1 = Some y" by simp
                ultimately show ?thesis using IH by blast
              next
                case ne: False
                from sn Some k False rh Inr ne body
                have "y = (Inr \<lparr>files = cur, path = p\<rparr>,
                           st\<lparr>world := w2, trace := trace st @ [Tried p Succeeded]\<rparr>)" by simp
                with success [OF c] sn Some k False rh Inr ne show ?thesis by simp
              qed
            qed
          qed
        qed
      qed
    qed
  qed
  from this [OF run] init show ?thesis by simp
qed

lemma runHops_prefix:
  "runHops C (pre @ a # b # post) cur w =
     (case runHops C (pre @ [a]) cur w of
        (Inl e, w') \<Rightarrow> (Inl e, w')
      | (Inr c, w') \<Rightarrow> runHops C (a # b # post) c w')"
proof (induction pre arbitrary: cur w)
  case Nil
  show ?case by simp
next
  case (Cons x pre)
  obtain y ys where y: "pre @ [a] = y # ys" by (cases "pre @ [a]") auto
  then have y2: "pre @ a # b # post = y # ys @ b # post"
    by (metis append_Cons append_assoc append_Nil)
  have IH: "runHops C (y # ys @ b # post) out w2 =
     (case runHops C (y # ys) out w2 of
        (Inl e, w') \<Rightarrow> (Inl e, w')
      | (Inr c, w') \<Rightarrow> runHops C (a # b # post) c w')" for out w2
    using Cons.IH [of out w2] y y2 by simp
  show ?case
    unfolding append_Cons y y2
    by (simp add: IH split: option.splits prod.splits bool.splits)
qed

lemma convertLoop_failed_step:
  assumes "searchNext C f t s (deadEndPaths (xgraph st)) (world st) = (Some p, w1)"
    and "pathKey p = Some key" and "key \<notin> failedPaths st"
    and "runHops C p fda w1 = (Inl err, w2)"
  shows "convertLoop C f t s fda inF outF st =
         convertLoop C f t s fda inF outF
           (st\<lparr>world := w2, xgraph := addDeadEndPath p (xgraph st),
               failedPaths := insert key (failedPaths st),
               trace := trace st @ [Tried p (Failed err)]\<rparr>)"
  by (subst convertLoop.simps) (simp add: assms)

lemma convertLoop_nofiles_step:
  assumes "searchNext C f t s (deadEndPaths (xgraph st)) (world st) = (Some p, w1)"
    and "pathKey p = Some key" and "key \<notin> failedPaths st"
    and "runHops C p fda w1 = (Inr [], w2)"
  shows "convertLoop C f t s fda inF outF st =
         convertLoop C f t s fda inF outF (st\<lparr>world := w2, trace := trace st @ [Tried p NoFiles]\<rparr>)"
  by (subst convertLoop.simps) (simp add: assms)

lemma convertLoop_success_step:
  assumes "searchNext C f t s (deadEndPaths (xgraph st)) (world st) = (Some p, w1)"
    and "pathKey p = Some key" and "key \<notin> failedPaths st"
    and "runHops C p fda w1 = (Inr cur, w2)" and "cur \<noteq> []"
  shows "convertLoop C f t s fda inF outF st =
         Some (Inr \<lparr>files = cur, path = p\<rparr>, st\<lparr>world := w2, trace := trace st @ [Tried p Succeeded]\<rparr>)"
  by (subst convertLoop.simps) (simp add: assms)

lemma convertLoop_exhausted_step:
  assumes "searchNext C f t s (deadEndPaths (xgraph st)) (world st) = (None, w1)"
  shows "convertLoop C f t s fda inF outF st =
         Some (Inl (NoWorkingPath (noPathMessage inF outF)),
               st\<lparr>world := w1, trace := trace st @ [Exhausted]\<rparr>)"
  by (subst convertLoop.simps) (simp add: assms)

lemma convertLoop_skip_step:
  assumes "searchNext C f t s (deadEndPaths (xgraph st)) (world st) = (Some p, w1)"
    and "pathKey p = Some key" and "key \<in> failedPaths st"
  shows "convertLoop C f t s fda inF outF st =
         convertLoop C f t s fda inF outF (st\<lparr>world := w1, trace := trace st @ [Skipped p]\<rparr>)"
  by (subst convertLoop.simps) (simp add: assms)


lemmas ex_defs = exFormat_def exSvg_def exPng_def exGif_def exHandler_def exConvert_def exCollab_def
  exPath_def exEngine_def exFile_def exDirect_def exData_def exStart_def

lemmas conv_defs = convertFiles_def convertLoop.simps findHandlerForFormat_def supportsFormat_def
  anchorHandler_def firstHandler_def clearDeadEndPaths_def addDeadEndPath_def pathKey_def nodeKey_def
  ensureReady_def Let_def

text \<open>
  C1. Whenever \<^verbatim>\<open>convertFiles\<close> settles, the dead-end memory of the graph holds exactly the
  paths that failed during this call, in order (whatever it held before the call: it is
  cleared first), \<^verbatim>\<open>failedPaths\<close> holds exactly their keys, and no path was tried after a
  path with the same signature had failed. The mechanism, at every state of the loop that
  satisfies the invariant (also in a call that never settles): when the iterator yields a
  path whose signature is that of a path that failed earlier in the call, the loop skips
  it, running none of its hops, and goes on with the next path.
\<close>

theorem failed_path_never_retried:
  fixes C :: "'w collaborators"
  assumes run: "convertFiles C inputFiles inF outF engine simple w = Some (res, st')"
  shows "deadEndPaths (xgraph st') = failedOf (trace st')
       \<and> failedPaths st' = keysOf (failedOf (trace st'))
       \<and> (\<forall>i j p e q r. i < j \<and> j < length (trace st') \<and> trace st' ! i = Tried p (Failed e)
             \<and> trace st' ! j = Tried q r \<longrightarrow> signature q \<noteq> signature p)
       \<and> (\<forall>f t fda (st :: 'w exec) p w1.
             consistent st \<and>
             searchNext C f t simple (deadEndPaths (xgraph st)) (world st) = (Some p, w1) \<and>
             (\<exists>q\<in>set (failedOf (trace st)). signature q = signature p) \<longrightarrow>
             convertLoop C f t simple fda inF outF st
               = convertLoop C f t simple fda inF outF
                   (st\<lparr>world := w1, trace := trace st @ [Skipped p]\<rparr>))"
proof -
  have "consistent (snd (res, st'))"
    by (rule convertLoop_rule [where I = consistent and Q = "\<lambda>y. consistent (snd y)",
          OF run [unfolded convertFiles_def Let_def]])
       (auto simp: consistent_def failedOf_append failedOf_single keysOf_append keysOf_single
          addDeadEndPath_def clearDeadEndPaths_def noRetry_snoc_other noRetry_snoc_tried
          failedOf_def [of "[]"] keysOf_def [of "[]"] noRetry_def [of "[]"] map_filter_simps)
  then have first: "deadEndPaths (xgraph st') = failedOf (trace st')
       \<and> failedPaths st' = keysOf (failedOf (trace st'))
       \<and> (\<forall>i j p e q r. i < j \<and> j < length (trace st') \<and> trace st' ! i = Tried p (Failed e)
             \<and> trace st' ! j = Tried q r \<longrightarrow> signature q \<noteq> signature p)"
    by (simp add: consistent_def noRetry_iff)
  have skip: "\<forall>f t fda (st :: 'w exec) p w1.
             consistent st \<and>
             searchNext C f t simple (deadEndPaths (xgraph st)) (world st) = (Some p, w1) \<and>
             (\<exists>q\<in>set (failedOf (trace st)). signature q = signature p) \<longrightarrow>
             convertLoop C f t simple fda inF outF st
               = convertLoop C f t simple fda inF outF
                   (st\<lparr>world := w1, trace := trace st @ [Skipped p]\<rparr>)"
  proof (intro allI impI)
    fix f t fda and st :: "'w exec" and p w1
    assume a: "consistent st \<and>
             searchNext C f t simple (deadEndPaths (xgraph st)) (world st) = (Some p, w1) \<and>
             (\<exists>q\<in>set (failedOf (trace st)). signature q = signature p)"
    then obtain q where q: "q \<in> set (failedOf (trace st))" "signature q = signature p" by blast
    from a q(1) have "pathKey q \<noteq> None" by (simp add: consistent_def list_all_iff)
    then obtain key where key: "pathKey q = Some key" by blast
    with q(2) have kp: "pathKey p = Some key" by (simp add: signature_pathKey [of q p])
    from key q(1) have "key \<in> keysOf (failedOf (trace st))" by (auto simp: keysOf_iff)
    with a have "key \<in> failedPaths st" by (simp add: consistent_def)
    with a kp show "convertLoop C f t simple fda inF outF st
               = convertLoop C f t simple fda inF outF
                   (st\<lparr>world := w1, trace := trace st @ [Skipped p]\<rparr>)"
      by (intro convertLoop_skip_step [where key = key]) simp_all
  qed
  from first skip show ?thesis by blast
qed

text \<open>
  A run of C1: the iterator yields the path through \<open>broken\<close> twice, then the path through
  \<open>good\<close>; the engine comes with a stale dead end from an earlier call.
\<close>

lemma ex_run_retry:
  "convertFiles exCollab [exFile] exSvg exPng exEngine True
     ([exPath ''broken'', exPath ''broken'', exPath ''good''], 0)
   = Some (Inr \<lparr>files = [\<lparr>fname = ''a.svg.png'', bytes = [60, 115]\<rparr>], path = exPath ''good''\<rparr>,
           \<lparr>world = ([], 2), xgraph = \<lparr>deadEndPaths = [exPath ''broken'']\<rparr>,
            failedPaths = {''broken:svg->broken:png''},
            trace = [Tried (exPath ''broken'') (Failed ConvertThrew), Skipped (exPath ''broken''),
                     Tried (exPath ''good'') Succeeded]\<rparr>)"
  by (simp add: conv_defs ex_defs)

theorem failed_path_never_retried_witness:
  "convertFiles exCollab [exFile] exSvg exPng exEngine True
     ([exPath ''broken'', exPath ''broken'', exPath ''good''], 0)
   = Some (Inr \<lparr>files = [\<lparr>fname = ''a.svg.png'', bytes = [60, 115]\<rparr>], path = exPath ''good''\<rparr>,
           \<lparr>world = ([], 2), xgraph = \<lparr>deadEndPaths = [exPath ''broken'']\<rparr>,
            failedPaths = {''broken:svg->broken:png''},
            trace = [Tried (exPath ''broken'') (Failed ConvertThrew), Skipped (exPath ''broken''),
                     Tried (exPath ''good'') Succeeded]\<rparr>)
   \<and> [exPath ''broken''] = failedOf [Tried (exPath ''broken'') (Failed ConvertThrew), Skipped (exPath ''broken''),
                     Tried (exPath ''good'') Succeeded]
   \<and> {''broken:svg->broken:png''} = keysOf [exPath ''broken'']
   \<and> signature (exPath ''good'') \<noteq> signature (exPath ''broken'')
   \<and> consistent \<lparr>world = ([exPath ''broken'', exPath ''good''], 1::nat),
         xgraph = \<lparr>deadEndPaths = [exPath ''broken'']\<rparr>, failedPaths = {''broken:svg->broken:png''},
         trace = [Tried (exPath ''broken'') (Failed ConvertThrew)]\<rparr>
   \<and> convertLoop exCollab (exNode ''good'' exSvg) (exNode ''good'' exPng) True exData exSvg exPng
         \<lparr>world = ([exPath ''broken'', exPath ''good''], 1),
          xgraph = \<lparr>deadEndPaths = [exPath ''broken'']\<rparr>, failedPaths = {''broken:svg->broken:png''},
          trace = [Tried (exPath ''broken'') (Failed ConvertThrew)]\<rparr>
       = convertLoop exCollab (exNode ''good'' exSvg) (exNode ''good'' exPng) True exData exSvg exPng
           \<lparr>world = ([exPath ''good''], 1),
            xgraph = \<lparr>deadEndPaths = [exPath ''broken'']\<rparr>, failedPaths = {''broken:svg->broken:png''},
            trace = [Tried (exPath ''broken'') (Failed ConvertThrew), Skipped (exPath ''broken'')]\<rparr>"
proof -
  let ?st = "\<lparr>world = ([exPath ''broken'', exPath ''good''], 1::nat),
         xgraph = \<lparr>deadEndPaths = [exPath ''broken'']\<rparr>, failedPaths = {''broken:svg->broken:png''},
         trace = [Tried (exPath ''broken'') (Failed ConvertThrew)]\<rparr>"
  note t = failed_path_never_retried [OF ex_run_retry]
  from t [THEN conjunct2, THEN conjunct2, THEN conjunct1, rule_format, of 0 2 "exPath ''broken''" ConvertThrew
      "exPath ''good''" Succeeded]
  have n: "signature (exPath ''good'') \<noteq> signature (exPath ''broken'')"
    by simp
  have k: "pathKey (exPath ''broken'') = Some ''broken:svg->broken:png''"
    by (simp add: pathKey_def nodeKey_def ex_defs)
  have f: "failedOf [Tried (exPath ''broken'') (Failed ConvertThrew)] = [exPath ''broken'']"
    by (simp add: failedOf_def)
  have c: "consistent ?st"
    using noRetry_snoc_tried [of "[]" "exPath ''broken''" "''broken:svg->broken:png''" "Failed ConvertThrew"]
    by (simp add: consistent_def f k keysOf_single noRetry_def [of "[]"] failedOf_def [of "[]"]
        keysOf_def [of "[]"] map_filter_simps)
  have y: "searchNext exCollab (exNode ''good'' exSvg) (exNode ''good'' exPng) True
      (deadEndPaths (xgraph ?st)) (world ?st) = (Some (exPath ''broken''), ([exPath ''good''], 1))"
    by (simp add: exCollab_def)
  have q: "\<exists>q\<in>set (failedOf (trace ?st)). signature q = signature (exPath ''broken'')"
    by (simp add: f)
  from t [THEN conjunct2, THEN conjunct2, THEN conjunct2, rule_format, OF conjI [OF c conjI [OF y q]],
      of exData]
  have s: "convertLoop exCollab (exNode ''good'' exSvg) (exNode ''good'' exPng) True exData exSvg exPng ?st
       = convertLoop exCollab (exNode ''good'' exSvg) (exNode ''good'' exPng) True exData exSvg exPng
           \<lparr>world = ([exPath ''good''], 1),
            xgraph = \<lparr>deadEndPaths = [exPath ''broken'']\<rparr>, failedPaths = {''broken:svg->broken:png''},
            trace = [Tried (exPath ''broken'') (Failed ConvertThrew), Skipped (exPath ''broken'')]\<rparr>"
    by simp
  from t n ex_run_retry have "convertFiles exCollab [exFile] exSvg exPng exEngine True
     ([exPath ''broken'', exPath ''broken'', exPath ''good''], 0)
   = Some (Inr \<lparr>files = [\<lparr>fname = ''a.svg.png'', bytes = [60, 115]\<rparr>], path = exPath ''good''\<rparr>,
           \<lparr>world = ([], 2), xgraph = \<lparr>deadEndPaths = [exPath ''broken'']\<rparr>,
            failedPaths = {''broken:svg->broken:png''},
            trace = [Tried (exPath ''broken'') (Failed ConvertThrew), Skipped (exPath ''broken''),
                     Tried (exPath ''good'') Succeeded]\<rparr>)
   \<and> [exPath ''broken''] = failedOf [Tried (exPath ''broken'') (Failed ConvertThrew), Skipped (exPath ''broken''),
                     Tried (exPath ''good'') Succeeded]
   \<and> {''broken:svg->broken:png''} = keysOf [exPath ''broken'']
   \<and> signature (exPath ''good'') \<noteq> signature (exPath ''broken'')"
    by simp
  with c s show ?thesis by blast
qed

text \<open>
  C2. Let the iterator yield a path \<open>p\<close> whose key is not yet in \<^verbatim>\<open>failedPaths\<close>, and let
  some hop of \<open>p\<close>, from node \<open>a\<close> to node \<open>b\<close>, be reached (the hops before it went
  through) and resolve to files of which one has no bytes. Then the hops of \<open>p\<close> end in
  the \<^verbatim>\<open>catch\<close> block with the error of the empty output, although the handler threw
  nothing, and the call does not return at \<open>p\<close>: the iterator is asked for the next path,
  with \<open>p\<close> in the dead-end memory it consults. If it has none, the call rejects with the
  terminal error; if it yields a path that goes through with files, the call resolves with
  these files and that path; in both cases, and however else the call settles, \<open>p\<close> is in
  the dead-end memory and its key in \<^verbatim>\<open>failedPaths\<close> at the end, and the trace shows the
  failed attempt of \<open>p\<close> followed by what was done next.
\<close>

theorem zero_length_output_fails_path:
  fixes C :: "'w collaborators"
  assumes yield: "searchNext C f t s (deadEndPaths (xgraph st)) (world st) = (Some p, w1)"
    and key: "pathKey p = Some key" "key \<notin> failedPaths st"
    and hop: "p = pre @ a # b # post"
    and before: "runHops C (pre @ [a]) fda w1 = (Inr cur, w2)"
    and h: "handler b = Some h" "ensureReady C h w2 = (True, w3)"
    and out: "doConvert C h cur (nformat a) (nformat b) w3 = (Some out, w4)"
    and empty: "\<exists>x\<in>set out. bytes x = []"
  shows "runHops C p fda w1 = (Inl OutputEmpty, w4)
       \<and> (\<forall>w5. searchNext C f t s (deadEndPaths (xgraph st) @ [p]) w4 = (None, w5) \<longrightarrow>
            convertLoop C f t s fda inF outF st =
              Some (Inl (NoWorkingPath (noPathMessage inF outF)),
                    st\<lparr>world := w5, xgraph := addDeadEndPath p (xgraph st),
                       failedPaths := insert key (failedPaths st),
                       trace := trace st @ [Tried p (Failed OutputEmpty), Exhausted]\<rparr>))
       \<and> (\<forall>q w5 qkey out' w6.
            searchNext C f t s (deadEndPaths (xgraph st) @ [p]) w4 = (Some q, w5) \<and>
            pathKey q = Some qkey \<and> qkey \<notin> insert key (failedPaths st) \<and>
            runHops C q fda w5 = (Inr out', w6) \<and> out' \<noteq> [] \<longrightarrow>
            convertLoop C f t s fda inF outF st =
              Some (Inr \<lparr>files = out', path = q\<rparr>,
                    st\<lparr>world := w6, xgraph := addDeadEndPath p (xgraph st),
                       failedPaths := insert key (failedPaths st),
                       trace := trace st @ [Tried p (Failed OutputEmpty), Tried q Succeeded]\<rparr>))
       \<and> (\<forall>res st'. convertLoop C f t s fda inF outF st = Some (res, st') \<longrightarrow>
            p \<in> set (deadEndPaths (xgraph st')) \<and> key \<in> failedPaths st' \<and>
            (\<exists>tr. tr \<noteq> [] \<and> trace st' = trace st @ Tried p (Failed OutputEmpty) # tr))"
proof -
  let ?st1 = "st\<lparr>world := w4, xgraph := addDeadEndPath p (xgraph st),
                 failedPaths := insert key (failedPaths st),
                 trace := trace st @ [Tried p (Failed OutputEmpty)]\<rparr>"
  from empty have "list_ex (\<lambda>x. bytes x = []) out" by (simp add: list_ex_iff)
  with h out have "runHops C (a # b # post) cur w2 = (Inl OutputEmpty, w4)" by simp
  with before have r: "runHops C p fda w1 = (Inl OutputEmpty, w4)"
    unfolding hop by (simp add: runHops_prefix)
  have step: "convertLoop C f t s fda inF outF st = convertLoop C f t s fda inF outF ?st1"
    by (rule convertLoop_failed_step [OF yield key r])
  have mem: "deadEndPaths (addDeadEndPath p (xgraph st)) = deadEndPaths (xgraph st) @ [p]"
    by (simp add: addDeadEndPath_def)
  have c2: "\<forall>w5. searchNext C f t s (deadEndPaths (xgraph st) @ [p]) w4 = (None, w5) \<longrightarrow>
            convertLoop C f t s fda inF outF st =
              Some (Inl (NoWorkingPath (noPathMessage inF outF)),
                    st\<lparr>world := w5, xgraph := addDeadEndPath p (xgraph st),
                       failedPaths := insert key (failedPaths st),
                       trace := trace st @ [Tried p (Failed OutputEmpty), Exhausted]\<rparr>)"
  proof (intro allI impI)
    fix w5
    assume "searchNext C f t s (deadEndPaths (xgraph st) @ [p]) w4 = (None, w5)"
    then have "searchNext C f t s (deadEndPaths (xgraph ?st1)) (world ?st1) = (None, w5)"
      by (simp add: mem)
    from convertLoop_exhausted_step [OF this, of fda inF outF] step
    show "convertLoop C f t s fda inF outF st =
              Some (Inl (NoWorkingPath (noPathMessage inF outF)),
                    st\<lparr>world := w5, xgraph := addDeadEndPath p (xgraph st),
                       failedPaths := insert key (failedPaths st),
                       trace := trace st @ [Tried p (Failed OutputEmpty), Exhausted]\<rparr>)"
      by simp
  qed
  have c3: "\<forall>q w5 qkey out' w6.
            searchNext C f t s (deadEndPaths (xgraph st) @ [p]) w4 = (Some q, w5) \<and>
            pathKey q = Some qkey \<and> qkey \<notin> insert key (failedPaths st) \<and>
            runHops C q fda w5 = (Inr out', w6) \<and> out' \<noteq> [] \<longrightarrow>
            convertLoop C f t s fda inF outF st =
              Some (Inr \<lparr>files = out', path = q\<rparr>,
                    st\<lparr>world := w6, xgraph := addDeadEndPath p (xgraph st),
                       failedPaths := insert key (failedPaths st),
                       trace := trace st @ [Tried p (Failed OutputEmpty), Tried q Succeeded]\<rparr>)"
  proof (intro allI impI)
    fix q w5 qkey out' w6
    assume a: "searchNext C f t s (deadEndPaths (xgraph st) @ [p]) w4 = (Some q, w5) \<and>
            pathKey q = Some qkey \<and> qkey \<notin> insert key (failedPaths st) \<and>
            runHops C q fda w5 = (Inr out', w6) \<and> out' \<noteq> []"
    then have y: "searchNext C f t s (deadEndPaths (xgraph ?st1)) (world ?st1) = (Some q, w5)"
      by (simp add: mem)
    from a have k: "pathKey q = Some qkey" and nk: "qkey \<notin> failedPaths ?st1"
      and rq: "runHops C q fda w5 = (Inr out', w6)" and ne: "out' \<noteq> []" by simp_all
    from convertLoop_success_step [OF y k nk rq ne, of inF outF] step
    show "convertLoop C f t s fda inF outF st =
              Some (Inr \<lparr>files = out', path = q\<rparr>,
                    st\<lparr>world := w6, xgraph := addDeadEndPath p (xgraph st),
                       failedPaths := insert key (failedPaths st),
                       trace := trace st @ [Tried p (Failed OutputEmpty), Tried q Succeeded]\<rparr>)"
      by simp
  qed
  have c4: "\<forall>res st'. convertLoop C f t s fda inF outF st = Some (res, st') \<longrightarrow>
            p \<in> set (deadEndPaths (xgraph st')) \<and> key \<in> failedPaths st' \<and>
            (\<exists>tr. tr \<noteq> [] \<and> trace st' = trace st @ Tried p (Failed OutputEmpty) # tr)"
  proof (intro allI impI)
    fix res and st' :: "'w exec"
    assume "convertLoop C f t s fda inF outF st = Some (res, st')"
    with step have run: "convertLoop C f t s fda inF outF ?st1 = Some (res, st')" by simp
    let ?I = "\<lambda>x :: 'w exec. p \<in> set (deadEndPaths (xgraph x)) \<and> key \<in> failedPaths x \<and>
        (\<exists>tr. trace x = trace st @ Tried p (Failed OutputEmpty) # tr)"
    let ?Q = "\<lambda>y :: (convert_error + ConversionResult) \<times> 'w exec.
        p \<in> set (deadEndPaths (xgraph (snd y))) \<and> key \<in> failedPaths (snd y) \<and>
        (\<exists>tr. tr \<noteq> [] \<and> trace (snd y) = trace st @ Tried p (Failed OutputEmpty) # tr)"
    have "?Q (res, st')"
      by (rule convertLoop_rule [where I = ?I and Q = ?Q, OF run])
         (auto simp: addDeadEndPath_def)
    then show "p \<in> set (deadEndPaths (xgraph st')) \<and> key \<in> failedPaths st' \<and>
            (\<exists>tr. tr \<noteq> [] \<and> trace st' = trace st @ Tried p (Failed OutputEmpty) # tr)"
      by simp
  qed
  show ?thesis by (rule conjI [OF r conjI [OF c2 conjI [OF c3 c4]]])
qed


text \<open>
  Runs of C2: the path through \<open>blank\<close>, which resolves to a file without content, then
  the path through \<open>good\<close>; and the path through \<open>blank\<close> alone.
\<close>

theorem zero_length_output_fails_path_witness:
  "doConvert exCollab (exHandler ''blank'') exData exSvg exPng ([exPath ''good''], 0)
       = (Some [\<lparr>fname = ''a.svg'', bytes = []\<rparr>], ([exPath ''good''], 1))
   \<and> convertFiles exCollab [exFile] exSvg exPng exEngine True ([exPath ''blank'', exPath ''good''], 0)
       = Some (Inr \<lparr>files = [\<lparr>fname = ''a.svg.png'', bytes = [60, 115]\<rparr>], path = exPath ''good''\<rparr>,
               \<lparr>world = ([], 2), xgraph = \<lparr>deadEndPaths = [exPath ''blank'']\<rparr>,
                failedPaths = {''blank:svg->blank:png''},
                trace = [Tried (exPath ''blank'') (Failed OutputEmpty),
                         Tried (exPath ''good'') Succeeded]\<rparr>)
   \<and> convertFiles exCollab [exFile] exSvg exPng exEngine True ([exPath ''blank''], 0)
       = Some (Inl (NoWorkingPath ''Could not find a working conversion path from svg to png''),
               \<lparr>world = ([], 1), xgraph = \<lparr>deadEndPaths = [exPath ''blank'']\<rparr>,
                failedPaths = {''blank:svg->blank:png''},
                trace = [Tried (exPath ''blank'') (Failed OutputEmpty), Exhausted]\<rparr>)"
proof -
  let ?f = "exNode ''good'' exSvg" and ?t = "exNode ''good'' exPng"
  have cf: "convertFiles exCollab [exFile] exSvg exPng exEngine True (ys, 0)
      = convertLoop exCollab ?f ?t True exData exSvg exPng (exStart ys)" for ys
    by (simp add: convertFiles_def Let_def findHandlerForFormat_def supportsFormat_def
        anchorHandler_def clearDeadEndPaths_def ex_defs exNode_def)
  have y: "searchNext exCollab ?f ?t True (deadEndPaths (xgraph (exStart (exPath ''blank'' # ys))))
             (world (exStart (exPath ''blank'' # ys))) = (Some (exPath ''blank''), (ys, 0))" for ys
    by (simp add: exCollab_def exStart_def)
  have k: "pathKey (exPath ''blank'') = Some ''blank:svg->blank:png''"
    by (simp add: pathKey_def nodeKey_def ex_defs)
  have nk: "''blank:svg->blank:png'' \<notin> failedPaths (exStart ys)" for ys
    by (simp add: exStart_def)
  have hop: "exPath ''blank'' = [] @ exNode ''blank'' exSvg # exNode ''blank'' exPng # []"
    by (simp add: exPath_def exNode_def)
  have before: "runHops exCollab ([] @ [exNode ''blank'' exSvg]) exData (ys, 0) = (Inr exData, (ys, 0))"
    for ys by simp
  have h: "handler (exNode ''blank'' exPng) = Some (exHandler ''blank'')" by (simp add: exNode_def)
  have r: "ensureReady exCollab (exHandler ''blank'') (ys, 0) = (True, (ys, 0))" for ys
    by (simp add: ensureReady_def exCollab_def exHandler_def)
  have out: "doConvert exCollab (exHandler ''blank'') exData (nformat (exNode ''blank'' exSvg))
      (nformat (exNode ''blank'' exPng)) (ys, 0) = (Some [\<lparr>fname = ''a.svg'', bytes = []\<rparr>], (ys, 1))"
    for ys by (simp add: exCollab_def exHandler_def exConvert_def exData_def)
  have e: "\<exists>x\<in>set [\<lparr>fname = ''a.svg'', bytes = []\<rparr>]. bytes x = []" by simp
  note t = zero_length_output_fails_path [OF y k nk hop before h r out e, of _ exSvg exPng]
  have next_good: "searchNext exCollab ?f ?t True
        (deadEndPaths (xgraph (exStart [exPath ''blank'', exPath ''good''])) @ [exPath ''blank''])
        ([exPath ''good''], 1) = (Some (exPath ''good''), ([], 1))
      \<and> pathKey (exPath ''good'') = Some ''good:svg->good:png''
      \<and> ''good:svg->good:png'' \<notin> insert ''blank:svg->blank:png''
            (failedPaths (exStart [exPath ''blank'', exPath ''good'']))
      \<and> runHops exCollab (exPath ''good'') exData ([], 1)
          = (Inr [\<lparr>fname = ''a.svg.png'', bytes = [60, 115]\<rparr>], ([], 2))
      \<and> [\<lparr>fname = ''a.svg.png'', bytes = [60, 115]\<rparr>] \<noteq> []"
    by (simp add: pathKey_def nodeKey_def ensureReady_def ex_defs)
  have next_none: "searchNext exCollab ?f ?t True
        (deadEndPaths (xgraph (exStart [exPath ''blank''])) @ [exPath ''blank'']) ([], 1)
      = (None, ([], 1))"
    by (simp add: exCollab_def)
  from t [of "[exPath ''good'']", THEN conjunct2, THEN conjunct2, THEN conjunct1, rule_format,
      OF next_good]
  have a: "convertFiles exCollab [exFile] exSvg exPng exEngine True ([exPath ''blank'', exPath ''good''], 0)
       = Some (Inr \<lparr>files = [\<lparr>fname = ''a.svg.png'', bytes = [60, 115]\<rparr>], path = exPath ''good''\<rparr>,
               \<lparr>world = ([], 2), xgraph = \<lparr>deadEndPaths = [exPath ''blank'']\<rparr>,
                failedPaths = {''blank:svg->blank:png''},
                trace = [Tried (exPath ''blank'') (Failed OutputEmpty),
                         Tried (exPath ''good'') Succeeded]\<rparr>)"
    by (simp add: cf exStart_def addDeadEndPath_def)
  have msg: "noPathMessage exSvg exPng = ''Could not find a working conversion path from svg to png''"
    by (simp add: noPathMessage_def exSvg_def exPng_def exFormat_def)
  from t [of "[]", THEN conjunct2, THEN conjunct1, rule_format, OF next_none]
  have b: "convertFiles exCollab [exFile] exSvg exPng exEngine True ([exPath ''blank''], 0)
       = Some (Inl (NoWorkingPath ''Could not find a working conversion path from svg to png''),
               \<lparr>world = ([], 1), xgraph = \<lparr>deadEndPaths = [exPath ''blank'']\<rparr>,
                failedPaths = {''blank:svg->blank:png''},
                trace = [Tried (exPath ''blank'') (Failed OutputEmpty), Exhausted]\<rparr>)"
    by (simp add: cf exStart_def addDeadEndPath_def msg)
  from a b out [of "[exPath ''good'']"] show ?thesis by (simp add: exNode_def)
qed









text \<open>
  C4, as the code has it. When \<^verbatim>\<open>findHandlerForFormat\<close> returns null for the requested
  input format (or output format), \<^verbatim>\<open>convertFiles\<close> raises nothing: it anchors that format at
  \<^verbatim>\<open>engine.handlers[0]\<close>, the first registered handler, and runs the path search and the
  loop from this anchor.
\<close>

theorem missing_handler_falls_back_to_first:
  "(findHandlerForFormat inF (handlers engine) = None \<longrightarrow>
      convertFiles C inputFiles inF outF engine simple w =
        convertLoop C \<lparr>handler = firstHandler (handlers engine), nformat = inF\<rparr>
          \<lparr>handler = anchorHandler (findHandlerForFormat outF (handlers engine)) (handlers engine),
           nformat = outF\<rparr>
          simple (map (\<lambda>f. \<lparr>fname = file_name f, bytes = file_content f\<rparr>) inputFiles) inF outF
          \<lparr>world = w, xgraph = clearDeadEndPaths (graph engine), failedPaths = {}, trace = []\<rparr>)
   \<and> (findHandlerForFormat outF (handlers engine) = None \<longrightarrow>
      convertFiles C inputFiles inF outF engine simple w =
        convertLoop C
          \<lparr>handler = anchorHandler (findHandlerForFormat inF (handlers engine)) (handlers engine),
           nformat = inF\<rparr>
          \<lparr>handler = firstHandler (handlers engine), nformat = outF\<rparr>
          simple (map (\<lambda>f. \<lparr>fname = file_name f, bytes = file_content f\<rparr>) inputFiles) inF outF
          \<lparr>world = w, xgraph = clearDeadEndPaths (graph engine), failedPaths = {}, trace = []\<rparr>)
   \<and> (\<forall>h hs. handlers engine = h # hs \<longrightarrow> firstHandler (handlers engine) = Some h)"
  by (simp add: convertFiles_def Let_def anchorHandler_def firstHandler_def)


text \<open>A run of C4: no handler of the installation supports GIF.\<close>

theorem missing_handler_falls_back_to_first_witness:
  "findHandlerForFormat exGif (handlers exEngine) = None
   \<and> convertFiles exCollab [exFile] exGif exPng exEngine True ([], 0)
     = convertLoop exCollab (exNode ''good'' exGif) (exNode ''good'' exPng) True exData exGif exPng
         (exStart [])"
proof -
  have n: "findHandlerForFormat exGif (handlers exEngine) = None"
    by (simp add: findHandlerForFormat_def supportsFormat_def ex_defs)
  have "firstHandler (handlers exEngine) = Some (exHandler ''good'')"
    by (simp add: firstHandler_def exEngine_def)
  moreover have "anchorHandler (findHandlerForFormat exPng (handlers exEngine)) (handlers exEngine)
      = Some (exHandler ''good'')"
    by (simp add: anchorHandler_def findHandlerForFormat_def supportsFormat_def ex_defs)
  moreover have "map (\<lambda>f. \<lparr>fname = file_name f, bytes = file_content f\<rparr>) [exFile] = exData"
    by (simp add: exFile_def exData_def)
  moreover have "\<lparr>world = ([], 0), xgraph = clearDeadEndPaths (graph exEngine), failedPaths = {},
      trace = []\<rparr> = exStart []"
    by (simp add: exStart_def clearDeadEndPaths_def exEngine_def)
  ultimately show ?thesis
    using n missing_handler_falls_back_to_first [THEN conjunct1, rule_format, OF n,
        of exCollab "[exFile]" exPng True "([], 0)"]
    by (simp add: exNode_def)
qed


text \<open>
  C4 as the spec words it does not hold: with no handler for GIF, the conversion of a GIF
  resolves, through the first registered handler, and no error is raised.
\<close>

theorem missing_handler_counterexample:
  "findHandlerForFormat exGif (handlers exEngine) = None
   \<and> convertFiles exDirect [exFile] exGif exPng exEngine True ([[]], 0)
     = Some (Inr \<lparr>files = [\<lparr>fname = ''a.svg.png'', bytes = [60, 115]\<rparr>],
                   path = [exNode ''good'' exGif, exNode ''good'' exPng]\<rparr>,
             \<lparr>world = ([], 1), xgraph = \<lparr>deadEndPaths = []\<rparr>, failedPaths = {},
              trace = [Tried [exNode ''good'' exGif, exNode ''good'' exPng] Succeeded]\<rparr>)"
  by (simp add: conv_defs ex_defs exNode_def)


text \<open>
  C10. Let the iterator yield a path \<open>p\<close> whose key is not yet in \<^verbatim>\<open>failedPaths\<close>, and let
  the hops of \<open>p\<close> go through and end with an empty list of files. Then the loop neither
  returns nor records \<open>p\<close>: it goes on with the next path, with the dead-end memory and
  \<^verbatim>\<open>failedPaths\<close> as they were. So when the iterator yields \<open>p\<close> again next, \<open>p\<close> is tried
  again, and if it ends with files this time, \<^verbatim>\<open>convertFiles\<close> resolves with them.
\<close>

theorem empty_result_not_recorded:
  assumes yield: "searchNext C f t s (deadEndPaths (xgraph st)) (world st) = (Some p, w1)"
    and key: "pathKey p = Some key" "key \<notin> failedPaths st"
    and run: "runHops C p fda w1 = (Inr [], w2)"
  shows "convertLoop C f t s fda inF outF st =
           convertLoop C f t s fda inF outF (st\<lparr>world := w2, trace := trace st @ [Tried p NoFiles]\<rparr>)
       \<and> (\<forall>w3 cur w4.
            searchNext C f t s (deadEndPaths (xgraph st)) w2 = (Some p, w3) \<and>
            runHops C p fda w3 = (Inr cur, w4) \<and> cur \<noteq> [] \<longrightarrow>
            convertLoop C f t s fda inF outF st =
              Some (Inr \<lparr>files = cur, path = p\<rparr>,
                    st\<lparr>world := w4, trace := trace st @ [Tried p NoFiles, Tried p Succeeded]\<rparr>))"
proof (intro conjI allI impI)
  show 1: "convertLoop C f t s fda inF outF st =
           convertLoop C f t s fda inF outF (st\<lparr>world := w2, trace := trace st @ [Tried p NoFiles]\<rparr>)"
    by (rule convertLoop_nofiles_step [OF yield key run])
  fix w3 cur w4
  assume a: "searchNext C f t s (deadEndPaths (xgraph st)) w2 = (Some p, w3) \<and>
            runHops C p fda w3 = (Inr cur, w4) \<and> cur \<noteq> []"
  let ?st1 = "st\<lparr>world := w2, trace := trace st @ [Tried p NoFiles]\<rparr>"
  have "convertLoop C f t s fda inF outF ?st1 =
      Some (Inr \<lparr>files = cur, path = p\<rparr>, ?st1\<lparr>world := w4, trace := trace ?st1 @ [Tried p Succeeded]\<rparr>)"
    by (rule convertLoop_success_step [where key = key and ?w1.0 = w3]) (use a key in simp_all)
  with 1 show "convertLoop C f t s fda inF outF st =
              Some (Inr \<lparr>files = cur, path = p\<rparr>,
                    st\<lparr>world := w4, trace := trace st @ [Tried p NoFiles, Tried p Succeeded]\<rparr>)"
    by simp
qed


text \<open>A run of C10: the path through \<open>hollow\<close>, yielded twice.\<close>

theorem empty_result_not_recorded_witness:
  "runHops exCollab (exPath ''hollow'') exData ([exPath ''hollow''], 0) = (Inr [], ([exPath ''hollow''], 1))
   \<and> convertLoop exCollab (exNode ''good'' exSvg) (exNode ''good'' exPng) True exData exSvg exPng
         (exStart [exPath ''hollow'', exPath ''hollow''])
       = Some (Inr \<lparr>files = [\<lparr>fname = ''a.svg.png'', bytes = [60, 115]\<rparr>], path = exPath ''hollow''\<rparr>,
               \<lparr>world = ([], 2), xgraph = \<lparr>deadEndPaths = []\<rparr>, failedPaths = {},
                trace = [Tried (exPath ''hollow'') NoFiles, Tried (exPath ''hollow'') Succeeded]\<rparr>)"
proof -
  let ?st = "exStart [exPath ''hollow'', exPath ''hollow'']"
  let ?w1 = "([exPath ''hollow''], 0::nat)"
  let ?w2 = "([exPath ''hollow''], 1::nat)"
  have y: "searchNext exCollab (exNode ''good'' exSvg) (exNode ''good'' exPng) True
             (deadEndPaths (xgraph ?st)) (world ?st) = (Some (exPath ''hollow''), ?w1)"
    by (simp add: exCollab_def exStart_def)
  have k: "pathKey (exPath ''hollow'') = Some ''hollow:svg->hollow:png''"
    by (simp add: pathKey_def nodeKey_def ex_defs)
  have nk: "''hollow:svg->hollow:png'' \<notin> failedPaths ?st" by (simp add: exStart_def)
  have run: "runHops exCollab (exPath ''hollow'') exData ?w1 = (Inr [], ?w2)"
    by (simp add: ensureReady_def ex_defs)
  have again: "searchNext exCollab (exNode ''good'' exSvg) (exNode ''good'' exPng) True
             (deadEndPaths (xgraph ?st)) ?w2 = (Some (exPath ''hollow''), ([], 1))
       \<and> runHops exCollab (exPath ''hollow'') exData ([], 1)
           = (Inr [\<lparr>fname = ''a.svg.png'', bytes = [60, 115]\<rparr>], ([], 2))
       \<and> [\<lparr>fname = ''a.svg.png'', bytes = [60, 115]\<rparr>] \<noteq> []"
    by (simp add: ensureReady_def ex_defs)
  from empty_result_not_recorded [OF y k nk run, of exSvg exPng, THEN conjunct2, rule_format, OF again] run
  show ?thesis by (simp add: exStart_def)
qed


section \<open>Properties of engine construction\<close>

lemma map_update_same: "(map f xs)[i := f (xs ! i)] = map f xs"
  by (cases "i < length xs") (simp_all add: list_update_same_conv list_update_beyond)

lemma initStep_length: "length (bhandlers (initStep C i st)) = length (bhandlers st)"
  by (simp add: initStep_def Let_def split: prod.splits option.splits)

lemma initStep_names: "map name (bhandlers (initStep C i st)) = map name (bhandlers st)"
  by (auto simp: initStep_def Let_def map_update map_update_same split: prod.splits option.splits)

lemma initStep_other: "j \<noteq> i \<Longrightarrow> bhandlers (initStep C i st) ! j = bhandlers st ! j"
  by (simp add: initStep_def Let_def split: prod.splits option.splits)

lemma initStep_cache_keeps:
  "mapHas (cache st) k \<Longrightarrow> map_of (cache (initStep C i st)) k = map_of (cache st) k"
  by (auto simp: initStep_def Let_def mapHas_def AList.update_conv' split: prod.splits option.splits)

lemma initStep_cache_mono: "mapHas (cache st) k \<Longrightarrow> mapHas (cache (initStep C i st)) k"
  using initStep_cache_keeps [of st k C i] by (simp add: mapHas_def)



lemma initLoop_names: "map name (bhandlers (initLoop C i st)) = map name (bhandlers st)"
  by (induction C i st rule: initLoop.induct) (subst initLoop.simps, simp add: initStep_names)

lemma initLoop_before: "j < i \<Longrightarrow> bhandlers (initLoop C i st) ! j = bhandlers st ! j"
  by (induction C i st rule: initLoop.induct) (subst initLoop.simps, simp add: initStep_other)

lemma initLoop_cache_keeps:
  "mapHas (cache st) k \<Longrightarrow> map_of (cache (initLoop C i st)) k = map_of (cache st) k"
proof (induction C i st rule: initLoop.induct)
  case (1 C i st)
  show ?case
  proof (cases "i < length (bhandlers st)")
    case True
    from 1(2) have "mapHas (cache (initStep C i st)) k"
      by (rule initStep_cache_mono)
    with 1(1) [OF True] 1(2) True show ?thesis
      by (subst initLoop.simps) (simp add: initStep_cache_keeps)
  next
    case False
    then show ?thesis by (subst initLoop.simps) simp
  qed
qed



lemma update_fresh: "k \<notin> fst ` set al \<Longrightarrow> AList.update k v al = al @ [(k, v)]"
  by (induction al) auto

lemma newMap_distinct_aux:
  "distinct (map fst m) \<Longrightarrow> distinct (map fst (foldl (\<lambda>m (k, v). AList.update k v m) m entries))"
  by (induction entries arbitrary: m) (auto simp: AList.distinct_update)

lemma newMap_distinct: "distinct (map fst (newMap entries))"
  unfolding newMap_def by (rule newMap_distinct_aux) simp

lemma loadCache_fold:
  "distinct (map fst (c @ m)) \<Longrightarrow>
   foldl (\<lambda>(c, raw) (handlerName, formats). (AList.update handlerName formats c, raw @ formats)) (c, r) m
     = (c @ m, r @ concat (map snd m))"
proof (induction m arbitrary: c r)
  case Nil
  show ?case by simp
next
  case (Cons e m)
  obtain n fs where e: "e = (n, fs)" by (cases e)
  from Cons.prems e have "n \<notin> fst ` set c" by auto
  then have u: "AList.update n fs c = c @ [(n, fs)]" by (rule update_fresh)
  from Cons.prems e have "distinct (map fst ((c @ [(n, fs)]) @ m))" by simp
  from Cons.IH [OF this, of "r @ fs"] u e show ?case by simp
qed

lemma loadCache_snapshot:
  "loadCache cacheJSON = (snapshotMap cacheJSON, concat (map snd (snapshotMap cacheJSON)))"
proof (cases cacheJSON)
  case None
  then show ?thesis by (simp add: loadCache_def snapshotMap_def)
next
  case (Some entries)
  have "distinct (map fst ([] @ newMap entries))" by (simp add: newMap_distinct)
  from loadCache_fold [OF this, of "[]"] Some show ?thesis
    by (simp add: loadCache_def snapshotMap_def)
qed

lemma initLoop_step:
  "i < length (bhandlers st) \<Longrightarrow> initLoop C i st = initLoop C (Suc i) (initStep C i st)"
  by (subst initLoop.simps) simp

lemma initLoop_done: "\<not> i < length (bhandlers st) \<Longrightarrow> initLoop C i st = st"
  by (subst initLoop.simps) simp

lemma initStep_throws:
  assumes "\<not> mapHas (cache st) (name (bhandlers st ! i))"
    and "handlerInit C (bhandlers st ! i) (bworld st) = ((False, sf), w1)"
  shows "initStep C i st =
      st\<lparr>bworld := w1,
         bhandlers := (bhandlers st)[i := (bhandlers st ! i)\<lparr>supportedFormats := sf\<rparr>],
         initCalls := initCalls st @ [(i, False)]\<rparr>"
  using assms by (simp add: initStep_def Let_def)

lemma initStep_returns:
  assumes "\<not> mapHas (cache st) (name (bhandlers st ! i))"
    and "handlerInit C (bhandlers st ! i) (bworld st) = ((True, Some fs), w1)"
  shows "initStep C i st =
      st\<lparr>bworld := w1,
         bhandlers := (bhandlers st)[i := (bhandlers st ! i)\<lparr>supportedFormats := Some fs\<rparr>],
         initCalls := initCalls st @ [(i, True)],
         cache := cache st @ [(name (bhandlers st ! i), fs)],
         rawFormats := rawFormats st @ fs\<rparr>"
proof -
  from assms(1) have "name (bhandlers st ! i) \<notin> fst ` set (cache st)"
    by (simp add: mapHas_def map_of_eq_None_iff)
  from update_fresh [OF this] assms show ?thesis
    by (simp add: initStep_def Let_def)
qed

lemma initStep_unchanged:
  assumes "\<not> fst (fst (handlerInit C (bhandlers st ! i) (bworld st)))"
  shows "cache (initStep C i st) = cache st \<and> rawFormats (initStep C i st) = rawFormats st"
proof (cases "mapHas (cache st) (name (bhandlers st ! i))")
  case True
  then show ?thesis by (simp add: initStep_def Let_def)
next
  case False
  obtain ok sf w1 where hi: "handlerInit C (bhandlers st ! i) (bworld st) = ((ok, sf), w1)"
    by (cases "handlerInit C (bhandlers st ! i) (bworld st)") auto
  with assms have "\<not> ok" by simp
  with False hi show ?thesis by (simp add: initStep_def Let_def)
qed

lemma initLoop_all_throw:
  "\<forall>h w0. \<not> fst (fst (handlerInit C h w0)) \<Longrightarrow>
   cache (initLoop C i st) = cache st \<and> rawFormats (initLoop C i st) = rawFormats st"
proof (induction C i st rule: initLoop.induct)
  case (1 C i st)
  show ?case
  proof (cases "i < length (bhandlers st)")
    case True
    from 1(2) have "\<not> fst (fst (handlerInit C (bhandlers st ! i) (bworld st)))" by blast
    from initStep_unchanged [OF this] 1(1) [OF True 1(2)] initLoop_step [OF True, of C]
    show ?thesis by simp
  next
    case False
    then show ?thesis by (simp add: initLoop_done)
  qed
qed

lemma initStep_cache_source:
  assumes "mapHas (cache (initStep C i st)) n"
  shows "mapHas (cache st) n \<or>
      (n = name (bhandlers st ! i) \<and>
       (\<exists>sf w1. handlerInit C (bhandlers st ! i) (bworld st) = ((True, sf), w1)))"
proof (cases "mapHas (cache st) (name (bhandlers st ! i))")
  case True
  with assms show ?thesis by (simp add: initStep_def Let_def)
next
  case False
  obtain ok sf w1 where hi: "handlerInit C (bhandlers st ! i) (bworld st) = ((ok, sf), w1)"
    by (cases "handlerInit C (bhandlers st ! i) (bworld st)") auto
  show ?thesis
  proof (cases ok)
    case True
    with assms False hi show ?thesis
      by (cases sf) (auto simp: initStep_def Let_def mapHas_def AList.update_conv' split: if_splits)
  next
    case no: False
    with assms False hi show ?thesis by (simp add: initStep_def Let_def)
  qed
qed

lemma initLoop_cache_source:
  "mapHas (cache (initLoop C i st)) n \<Longrightarrow>
   mapHas (cache st) n \<or>
     (\<exists>k. i \<le> k \<and> k < length (bhandlers st) \<and> name (bhandlers st ! k) = n \<and>
        (\<exists>w0 sf w1. handlerInit C (bhandlers st ! k) w0 = ((True, sf), w1)))"
proof (induction C i st rule: initLoop.induct)
  case (1 C i st)
  show ?case
  proof (cases "i < length (bhandlers st)")
    case False
    with 1(2) show ?thesis by (simp add: initLoop_done)
  next
    case True
    let ?s = "initStep C i st"
    from 1(2) initLoop_step [OF True, of C] have "mapHas (cache (initLoop C (Suc i) ?s)) n" by simp
    from 1(1) [OF True this] consider (a) "mapHas (cache ?s) n"
      | (b) k where "Suc i \<le> k" "k < length (bhandlers ?s)" "name (bhandlers ?s ! k) = n"
          "\<exists>w0 sf w1. handlerInit C (bhandlers ?s ! k) w0 = ((True, sf), w1)"
      by blast
    then show ?thesis
    proof cases
      case a
      from initStep_cache_source [OF a] True show ?thesis by blast
    next
      case b
      from b(1) have "bhandlers ?s ! k = bhandlers st ! k" by (simp add: initStep_other)
      with b have "i \<le> k \<and> k < length (bhandlers st) \<and> name (bhandlers st ! k) = n \<and>
        (\<exists>w0 sf w1. handlerInit C (bhandlers st ! k) w0 = ((True, sf), w1))"
        by (simp add: initStep_length)
      then show ?thesis by blast
    qed
  qed
qed

lemma initStep_raw_source:
  assumes "f \<in> set (rawFormats (initStep C i st))"
  shows "f \<in> set (rawFormats st) \<or>
      (\<exists>fs w1. handlerInit C (bhandlers st ! i) (bworld st) = ((True, Some fs), w1) \<and> f \<in> set fs)"
proof (cases "mapHas (cache st) (name (bhandlers st ! i))")
  case True
  with assms show ?thesis by (simp add: initStep_def Let_def)
next
  case False
  obtain ok sf w1 where hi: "handlerInit C (bhandlers st ! i) (bworld st) = ((ok, sf), w1)"
    by (cases "handlerInit C (bhandlers st ! i) (bworld st)") auto
  show ?thesis
  proof (cases ok)
    case True
    with assms False hi show ?thesis
      by (cases sf) (auto simp: initStep_def Let_def)
  next
    case no: False
    with assms False hi show ?thesis by (simp add: initStep_def Let_def)
  qed
qed

lemma initLoop_raw_source:
  "f \<in> set (rawFormats (initLoop C i st)) \<Longrightarrow>
   f \<in> set (rawFormats st) \<or>
     (\<exists>k. i \<le> k \<and> k < length (bhandlers st) \<and>
        (\<exists>w0 fs w1. handlerInit C (bhandlers st ! k) w0 = ((True, Some fs), w1) \<and> f \<in> set fs))"
proof (induction C i st rule: initLoop.induct)
  case (1 C i st)
  show ?case
  proof (cases "i < length (bhandlers st)")
    case False
    with 1(2) show ?thesis by (simp add: initLoop_done)
  next
    case True
    let ?s = "initStep C i st"
    from 1(2) initLoop_step [OF True, of C] have "f \<in> set (rawFormats (initLoop C (Suc i) ?s))"
      by simp
    from 1(1) [OF True this] consider (a) "f \<in> set (rawFormats ?s)"
      | (b) k where "Suc i \<le> k" "k < length (bhandlers ?s)"
          "\<exists>w0 fs w1. handlerInit C (bhandlers ?s ! k) w0 = ((True, Some fs), w1) \<and> f \<in> set fs"
      by blast
    then show ?thesis
    proof cases
      case a
      from initStep_raw_source [OF a] True show ?thesis by blast
    next
      case b
      from b(1) have "bhandlers ?s ! k = bhandlers st ! k" by (simp add: initStep_other)
      with b have "i \<le> k \<and> k < length (bhandlers st) \<and>
        (\<exists>w0 fs w1. handlerInit C (bhandlers st ! k) w0 = ((True, Some fs), w1) \<and> f \<in> set fs)"
        by (simp add: initStep_length)
      then show ?thesis by blast
    qed
  qed
qed

lemma initStep_raw_mono: "set (rawFormats st) \<subseteq> set (rawFormats (initStep C i st))"
  by (auto simp: initStep_def Let_def split: prod.splits option.splits)

lemma initLoop_raw_mono: "set (rawFormats st) \<subseteq> set (rawFormats (initLoop C i st))"
proof (induction C i st rule: initLoop.induct)
  case (1 C i st)
  show ?case
  proof (cases "i < length (bhandlers st)")
    case False
    then show ?thesis by (simp add: initLoop_done)
  next
    case True
    from 1 [OF True] initStep_raw_mono [of st C i] initLoop_step [OF True, of C]
    show ?thesis by auto
  qed
qed

lemma initLoop_registers:
  "i \<le> k \<Longrightarrow> k < length (bhandlers st) \<Longrightarrow>
   \<not> mapHas (cache st) (name (bhandlers st ! k)) \<Longrightarrow>
   \<forall>l. i \<le> l \<and> l < k \<longrightarrow> name (bhandlers st ! l) \<noteq> name (bhandlers st ! k) \<Longrightarrow>
   \<forall>w0. fst (handlerInit C (bhandlers st ! k) w0) = (True, Some fs) \<Longrightarrow>
   map_of (cache (initLoop C i st)) (name (bhandlers st ! k)) = Some fs
   \<and> supportedFormats (bhandlers (initLoop C i st) ! k) = Some fs
   \<and> set fs \<subseteq> set (rawFormats (initLoop C i st))"
proof (induction C i st rule: initLoop.induct)
  case (1 C i st)
  let ?s = "initStep C i st"
  let ?n = "name (bhandlers st ! k)"
  from 1(2,3) have lt: "i < length (bhandlers st)" by simp
  note unfold = initLoop_step [OF lt, of C]
  show ?case
  proof (cases "i = k")
    case True
    obtain w1 where hi: "handlerInit C (bhandlers st ! k) (bworld st) = ((True, Some fs), w1)"
      using 1(6) by (metis prod.collapse)
    from initStep_returns [OF _ hi] 1(4) True
    have s: "?s = st\<lparr>bworld := w1,
         bhandlers := (bhandlers st)[k := (bhandlers st ! k)\<lparr>supportedFormats := Some fs\<rparr>],
         initCalls := initCalls st @ [(k, True)],
         cache := cache st @ [(?n, fs)],
         rawFormats := rawFormats st @ fs\<rparr>" by simp
    from 1(4) have fresh: "map_of (cache st) ?n = None" by (simp add: mapHas_def)
    from s fresh have c: "map_of (cache ?s) ?n = Some fs" by (simp add: map_add_def)
    then have "mapHas (cache ?s) ?n" by (simp add: mapHas_def)
    from initLoop_cache_keeps [OF this, of C "Suc k"] c
    have A: "map_of (cache (initLoop C (Suc k) ?s)) ?n = Some fs" by simp
    have "bhandlers (initLoop C (Suc k) ?s) ! k = bhandlers ?s ! k"
      by (rule initLoop_before) simp
    with s 1(3) have B: "supportedFormats (bhandlers (initLoop C (Suc k) ?s) ! k) = Some fs"
      by simp
    from s have "set fs \<subseteq> set (rawFormats ?s)" by simp
    with initLoop_raw_mono [of ?s C "Suc k"]
    have D: "set fs \<subseteq> set (rawFormats (initLoop C (Suc k) ?s))" by blast
    from A B D unfold True show ?thesis by simp
  next
    case False
    with 1(2) have le: "Suc i \<le> k" and ik: "i < k" by simp_all
    have l: "k < length (bhandlers ?s)" using 1(3) by (simp add: initStep_length)
    have same: "\<And>j. j \<noteq> i \<Longrightarrow> bhandlers ?s ! j = bhandlers st ! j" by (rule initStep_other)
    from ik have hk: "bhandlers ?s ! k = bhandlers st ! k" by (simp add: same)
    from 1(5) ik have ne: "name (bhandlers st ! i) \<noteq> ?n" by simp
    have fresh: "\<not> mapHas (cache ?s) (name (bhandlers ?s ! k))"
    proof
      assume "mapHas (cache ?s) (name (bhandlers ?s ! k))"
      then have "mapHas (cache ?s) ?n" by (simp add: hk)
      from initStep_cache_source [OF this] 1(4) ne show False by auto
    qed
    have names: "\<forall>l. Suc i \<le> l \<and> l < k \<longrightarrow> name (bhandlers ?s ! l) \<noteq> name (bhandlers ?s ! k)"
    proof (intro allI impI)
      fix l assume a: "Suc i \<le> l \<and> l < k"
      then have "bhandlers ?s ! l = bhandlers st ! l" by (simp add: same)
      with a 1(5) hk show "name (bhandlers ?s ! l) \<noteq> name (bhandlers ?s ! k)" by simp
    qed
    from 1(6) hk have inits: "\<forall>w0. fst (handlerInit C (bhandlers ?s ! k) w0) = (True, Some fs)"
      by simp
    from 1(1) [OF lt le l fresh names inits] hk unfold show ?thesis by simp
  qed
qed

lemma catalog_source:
  "g \<in> set (mergeFormats raw) \<Longrightarrow> \<exists>f\<in>set raw. formatKey f = formatKey g"
  using mergeFormats_source [of g raw] by auto

lemma catalog_covers:
  assumes "f \<in> set raw"
  shows "\<exists>g\<in>set (mergeFormats raw). formatKey g = formatKey f \<and> (from_cap f \<longrightarrow> from_cap g)
      \<and> (to_cap f \<longrightarrow> to_cap g) \<and> (lossless f \<longrightarrow> lossless g)"
proof -
  from assms have "formatKey f \<in> formatKey ` set (mergeFormats raw)"
    by (simp add: mergeFormats_keyset)
  then obtain g where g: "g \<in> set (mergeFormats raw)" "formatKey g = formatKey f" by auto
  from mergeFormats_entry [OF g(1)] obtain f0 rest where
    fl: "filter (\<lambda>x. formatKey x = formatKey g) raw = f0 # rest"
    and ge: "g = f0\<lparr>from_cap := (\<exists>x\<in>set (f0 # rest). from_cap x),
                  to_cap := (\<exists>x\<in>set (f0 # rest). to_cap x),
                  lossless := (\<exists>x\<in>set (f0 # rest). lossless x)\<rparr>" by blast
  from assms g(2) have "f \<in> set (filter (\<lambda>x. formatKey x = formatKey g) raw)" by simp
  then have m: "f \<in> set (f0 # rest)" by (simp only: fl)
  have "(from_cap f \<longrightarrow> from_cap g) \<and> (to_cap f \<longrightarrow> to_cap g) \<and> (lossless f \<longrightarrow> lossless g)"
    by (subst ge, subst ge, subst ge) (use m in auto)
  with g show ?thesis by blast
qed

lemma initializeEngine_run:
  assumes "initializeEngine C cacheJSON hs w = (res, st)"
  shows "\<exists>L ok w1.
      L = initLoop C 0 \<lparr>bworld = w, bhandlers = hs, cache = snapshotMap cacheJSON,
                         rawFormats = concat (map snd (snapshotMap cacheJSON)), initCalls = []\<rparr>
      \<and> graphInit C (cache L) (bhandlers L) (bworld L) = (ok, w1)
      \<and> st = L\<lparr>bworld := w1\<rparr>
      \<and> res = (if ok then Some \<lparr>handlers = bhandlers L, graph = newGraph,
                                 allFormats = mergeFormats (rawFormats L),
                                 supportedFormatCache = cache L, ready = True\<rparr>
               else None)"
proof -
  let ?L = "initLoop C 0 \<lparr>bworld = w, bhandlers = hs, cache = snapshotMap cacheJSON,
                         rawFormats = concat (map snd (snapshotMap cacheJSON)), initCalls = []\<rparr>"
  obtain ok w1 where g: "graphInit C (cache ?L) (bhandlers ?L) (bworld ?L) = (ok, w1)"
    by (cases "graphInit C (cache ?L) (bhandlers ?L) (bworld ?L)")
  from assms g have "st = ?L\<lparr>bworld := w1\<rparr>
      \<and> res = (if ok then Some \<lparr>handlers = bhandlers ?L, graph = newGraph,
                                 allFormats = mergeFormats (rawFormats ?L),
                                 supportedFormatCache = cache ?L, ready = True\<rparr>
               else None)"
    by (cases ok) (auto simp: initializeEngine_def loadCache_snapshot Let_def)
  with g show ?thesis by blast
qed







text \<open>
  C8. A handler whose \<^verbatim>\<open>init\<close> throws never makes \<^verbatim>\<open>initializeEngine\<close> reject: it
  rejects exactly when \<^verbatim>\<open>graph.init\<close> throws, and otherwise the engine is built and ready,
  with every handler still in its list. What the engine holds follows the outcome of the
  \<^verbatim>\<open>init\<close> calls:
  \<^item> a handler outside the snapshot whose \<^verbatim>\<open>init\<close> throws (as that of every handler of its
    name) has no entry in the format cache;
  \<^item> every key of the format cache is in the snapshot or is the name of a handler whose
    \<^verbatim>\<open>init\<close> returned normally, and every format of the catalog has the key of a format of
    the snapshot or of a format that such a handler left behind;
  \<^item> a handler outside the snapshot, the first of its name, whose \<^verbatim>\<open>init\<close> returns normally
    with formats is in the format cache with these formats, and the catalog has an entry
    for each of them, with at least its flags;
  \<^item> when every \<^verbatim>\<open>init\<close> throws, cache and formats are those of the snapshot alone;
  \<^item> in the loop, at the turn of a handler that is not in the cache: when its \<^verbatim>\<open>init\<close>
    throws, the cache and the formats stay as they are and the loop goes on with the next
    handler; when it returns normally with formats, the handler is appended to the cache
    and its formats to the formats.
\<close>

theorem init_failure_excluded:
  fixes C :: "'w collaborators"
  assumes run: "initializeEngine C cacheJSON hs w = (res, st)"
  shows "(\<exists>w0. graphInit C (cache st) (bhandlers st) w0 = (res \<noteq> None, bworld st))
       \<and> ((\<forall>c hs' w0. fst (graphInit C c hs' w0)) \<longrightarrow> res \<noteq> None)
       \<and> (\<forall>engine. res = Some engine \<longrightarrow>
            ready engine \<and> handlers engine = bhandlers st \<and> supportedFormatCache engine = cache st
            \<and> allFormats engine = mergeFormats (rawFormats st))
       \<and> map name (bhandlers st) = map name hs
       \<and> (\<forall>i<length hs.
            \<not> mapHas (snapshotMap cacheJSON) (name (hs ! i)) \<and>
            (\<forall>k<length hs. name (hs ! k) = name (hs ! i) \<longrightarrow>
                 (\<forall>w0. \<not> fst (fst (handlerInit C (hs ! k) w0)))) \<longrightarrow>
            \<not> mapHas (cache st) (name (hs ! i)))
       \<and> (\<forall>n. mapHas (cache st) n \<longrightarrow>
            mapHas (snapshotMap cacheJSON) n \<or>
            (\<exists>k<length hs. name (hs ! k) = n \<and>
               (\<exists>w0 sf w1. handlerInit C (hs ! k) w0 = ((True, sf), w1))))
       \<and> (\<forall>g\<in>set (mergeFormats (rawFormats st)).
            \<exists>f. formatKey f = formatKey g \<and>
              (f \<in> set (concat (map snd (snapshotMap cacheJSON))) \<or>
               (\<exists>k<length hs. \<exists>w0 fs w1.
                   handlerInit C (hs ! k) w0 = ((True, Some fs), w1) \<and> f \<in> set fs)))
       \<and> (\<forall>i<length hs. \<forall>fs.
            \<not> mapHas (snapshotMap cacheJSON) (name (hs ! i)) \<and>
            (\<forall>l<i. name (hs ! l) \<noteq> name (hs ! i)) \<and>
            (\<forall>w0. fst (handlerInit C (hs ! i) w0) = (True, Some fs)) \<longrightarrow>
            map_of (cache st) (name (hs ! i)) = Some fs \<and>
            supportedFormats (bhandlers st ! i) = Some fs \<and>
            (\<forall>f\<in>set fs. \<exists>g\<in>set (mergeFormats (rawFormats st)).
                formatKey g = formatKey f \<and> (from_cap f \<longrightarrow> from_cap g) \<and>
                (to_cap f \<longrightarrow> to_cap g) \<and> (lossless f \<longrightarrow> lossless g)))
       \<and> ((\<forall>h w0. \<not> fst (fst (handlerInit C h w0))) \<longrightarrow>
            cache st = snapshotMap cacheJSON \<and>
            rawFormats st = concat (map snd (snapshotMap cacheJSON)))
       \<and> (\<forall>(s :: 'w boot) i sf w1.
            i < length (bhandlers s) \<and> \<not> mapHas (cache s) (name (bhandlers s ! i)) \<and>
            handlerInit C (bhandlers s ! i) (bworld s) = ((False, sf), w1) \<longrightarrow>
            cache (initStep C i s) = cache s \<and> rawFormats (initStep C i s) = rawFormats s \<and>
            initLoop C i s = initLoop C (Suc i) (initStep C i s))
       \<and> (\<forall>(s :: 'w boot) i fs w1.
            i < length (bhandlers s) \<and> \<not> mapHas (cache s) (name (bhandlers s ! i)) \<and>
            handlerInit C (bhandlers s ! i) (bworld s) = ((True, Some fs), w1) \<longrightarrow>
            cache (initStep C i s) = cache s @ [(name (bhandlers s ! i), fs)] \<and>
            rawFormats (initStep C i s) = rawFormats s @ fs \<and>
            initLoop C i s = initLoop C (Suc i) (initStep C i s))"
proof -
  let ?snap = "snapshotMap cacheJSON"
  let ?st0 = "\<lparr>bworld = w, bhandlers = hs, cache = ?snap,
               rawFormats = concat (map snd ?snap), initCalls = []\<rparr>"
  let ?L = "initLoop C 0 ?st0"
  from initializeEngine_run [OF run] obtain ok w1 where
    g: "graphInit C (cache ?L) (bhandlers ?L) (bworld ?L) = (ok, w1)"
    and st: "st = ?L\<lparr>bworld := w1\<rparr>"
    and res: "res = (if ok then Some \<lparr>handlers = bhandlers ?L, graph = newGraph,
                                 allFormats = mergeFormats (rawFormats ?L),
                                 supportedFormatCache = cache ?L, ready = True\<rparr>
               else None)" by blast
  from st have hsL: "bhandlers st = bhandlers ?L" and cL: "cache st = cache ?L"
    and rL: "rawFormats st = rawFormats ?L" by simp_all
  have c0: "\<exists>w0. graphInit C (cache st) (bhandlers st) w0 = (res \<noteq> None, bworld st)"
  proof
    from g st res show "graphInit C (cache st) (bhandlers st) (bworld ?L) = (res \<noteq> None, bworld st)"
      by (cases ok) simp_all
  qed
  have c1: "(\<forall>c hs' w0. fst (graphInit C c hs' w0)) \<longrightarrow> res \<noteq> None"
  proof
    assume "\<forall>c hs' w0. fst (graphInit C c hs' w0)"
    then have "fst (graphInit C (cache ?L) (bhandlers ?L) (bworld ?L))" by blast
    with g have ok by simp
    with res show "res \<noteq> None" by simp
  qed
  have c2: "\<forall>engine. res = Some engine \<longrightarrow>
            ready engine \<and> handlers engine = bhandlers st \<and> supportedFormatCache engine = cache st
            \<and> allFormats engine = mergeFormats (rawFormats st)"
    using res hsL cL rL by (cases ok) auto
  have c3: "map name (bhandlers st) = map name hs"
    unfolding hsL by (simp add: initLoop_names)
  have c5: "\<forall>n. mapHas (cache st) n \<longrightarrow>
            mapHas ?snap n \<or>
            (\<exists>k<length hs. name (hs ! k) = n \<and>
               (\<exists>w0 sf w1. handlerInit C (hs ! k) w0 = ((True, sf), w1)))"
  proof (intro allI impI)
    fix n assume "mapHas (cache st) n"
    then have "mapHas (cache ?L) n" by (simp add: cL)
    from initLoop_cache_source [OF this]
    show "mapHas ?snap n \<or>
            (\<exists>k<length hs. name (hs ! k) = n \<and>
               (\<exists>w0 sf w1. handlerInit C (hs ! k) w0 = ((True, sf), w1)))"
      by simp
  qed
  have c4: "\<forall>i<length hs.
            \<not> mapHas ?snap (name (hs ! i)) \<and>
            (\<forall>k<length hs. name (hs ! k) = name (hs ! i) \<longrightarrow>
                 (\<forall>w0. \<not> fst (fst (handlerInit C (hs ! k) w0)))) \<longrightarrow>
            \<not> mapHas (cache st) (name (hs ! i))"
  proof (intro allI impI notI)
    fix i
    assume i: "i < length hs"
      and a: "\<not> mapHas ?snap (name (hs ! i)) \<and>
            (\<forall>k<length hs. name (hs ! k) = name (hs ! i) \<longrightarrow>
                 (\<forall>w0. \<not> fst (fst (handlerInit C (hs ! k) w0))))"
      and m: "mapHas (cache st) (name (hs ! i))"
    from c5 m a obtain k w0 sf w2 where k: "k < length hs" "name (hs ! k) = name (hs ! i)"
      "handlerInit C (hs ! k) w0 = ((True, sf), w2)" by blast
    from a k(1,2) have "\<not> fst (fst (handlerInit C (hs ! k) w0))" by blast
    with k(3) show False by simp
  qed
  have c6: "\<forall>g\<in>set (mergeFormats (rawFormats st)).
            \<exists>f. formatKey f = formatKey g \<and>
              (f \<in> set (concat (map snd ?snap)) \<or>
               (\<exists>k<length hs. \<exists>w0 fs w1.
                   handlerInit C (hs ! k) w0 = ((True, Some fs), w1) \<and> f \<in> set fs))"
  proof
    fix g assume "g \<in> set (mergeFormats (rawFormats st))"
    from catalog_source [OF this] obtain f where f: "f \<in> set (rawFormats ?L)"
      "formatKey f = formatKey g" unfolding rL by blast
    from initLoop_raw_source [OF f(1)]
    have "f \<in> set (concat (map snd ?snap)) \<or>
               (\<exists>k<length hs. \<exists>w0 fs w1.
                   handlerInit C (hs ! k) w0 = ((True, Some fs), w1) \<and> f \<in> set fs)"
      by simp
    with f(2) show "\<exists>f. formatKey f = formatKey g \<and>
              (f \<in> set (concat (map snd ?snap)) \<or>
               (\<exists>k<length hs. \<exists>w0 fs w1.
                   handlerInit C (hs ! k) w0 = ((True, Some fs), w1) \<and> f \<in> set fs))"
      by blast
  qed
  have c7: "\<forall>i<length hs. \<forall>fs.
            \<not> mapHas ?snap (name (hs ! i)) \<and>
            (\<forall>l<i. name (hs ! l) \<noteq> name (hs ! i)) \<and>
            (\<forall>w0. fst (handlerInit C (hs ! i) w0) = (True, Some fs)) \<longrightarrow>
            map_of (cache st) (name (hs ! i)) = Some fs \<and>
            supportedFormats (bhandlers st ! i) = Some fs \<and>
            (\<forall>f\<in>set fs. \<exists>g\<in>set (mergeFormats (rawFormats st)).
                formatKey g = formatKey f \<and> (from_cap f \<longrightarrow> from_cap g) \<and>
                (to_cap f \<longrightarrow> to_cap g) \<and> (lossless f \<longrightarrow> lossless g))"
  proof (intro allI impI)
    fix i fs
    assume i: "i < length hs"
      and a: "\<not> mapHas ?snap (name (hs ! i)) \<and>
            (\<forall>l<i. name (hs ! l) \<noteq> name (hs ! i)) \<and>
            (\<forall>w0. fst (handlerInit C (hs ! i) w0) = (True, Some fs))"
    have p1: "0 \<le> i" by simp
    from i have p2: "i < length (bhandlers ?st0)" by simp
    from a have p3: "\<not> mapHas (cache ?st0) (name (bhandlers ?st0 ! i))" by simp
    from a have p4: "\<forall>l. 0 \<le> l \<and> l < i \<longrightarrow> name (bhandlers ?st0 ! l) \<noteq> name (bhandlers ?st0 ! i)"
      by simp
    from a have p5: "\<forall>w0. fst (handlerInit C (bhandlers ?st0 ! i) w0) = (True, Some fs)" by simp
    from initLoop_registers [OF p1 p2 p3 p4 p5]
    have r: "map_of (cache st) (name (hs ! i)) = Some fs"
      "supportedFormats (bhandlers st ! i) = Some fs"
      "set fs \<subseteq> set (rawFormats st)"
      by (simp_all add: hsL cL rL)
    have "\<forall>f\<in>set fs. \<exists>g\<in>set (mergeFormats (rawFormats st)).
                formatKey g = formatKey f \<and> (from_cap f \<longrightarrow> from_cap g) \<and>
                (to_cap f \<longrightarrow> to_cap g) \<and> (lossless f \<longrightarrow> lossless g)"
    proof
      fix f assume "f \<in> set fs"
      with r(3) have "f \<in> set (rawFormats st)" by blast
      then show "\<exists>g\<in>set (mergeFormats (rawFormats st)).
                formatKey g = formatKey f \<and> (from_cap f \<longrightarrow> from_cap g) \<and>
                (to_cap f \<longrightarrow> to_cap g) \<and> (lossless f \<longrightarrow> lossless g)"
        by (rule catalog_covers)
    qed
    with r(1,2) show "map_of (cache st) (name (hs ! i)) = Some fs \<and>
            supportedFormats (bhandlers st ! i) = Some fs \<and>
            (\<forall>f\<in>set fs. \<exists>g\<in>set (mergeFormats (rawFormats st)).
                formatKey g = formatKey f \<and> (from_cap f \<longrightarrow> from_cap g) \<and>
                (to_cap f \<longrightarrow> to_cap g) \<and> (lossless f \<longrightarrow> lossless g))"
      by blast
  qed
  have c8: "(\<forall>h w0. \<not> fst (fst (handlerInit C h w0))) \<longrightarrow>
            cache st = ?snap \<and> rawFormats st = concat (map snd ?snap)"
  proof
    assume "\<forall>h w0. \<not> fst (fst (handlerInit C h w0))"
    from initLoop_all_throw [OF this, of 0 ?st0]
    show "cache st = ?snap \<and> rawFormats st = concat (map snd ?snap)"
      by (simp add: cL rL)
  qed
  have c9: "\<forall>(s :: 'w boot) i sf w1.
            i < length (bhandlers s) \<and> \<not> mapHas (cache s) (name (bhandlers s ! i)) \<and>
            handlerInit C (bhandlers s ! i) (bworld s) = ((False, sf), w1) \<longrightarrow>
            cache (initStep C i s) = cache s \<and> rawFormats (initStep C i s) = rawFormats s \<and>
            initLoop C i s = initLoop C (Suc i) (initStep C i s)"
  proof (intro allI impI)
    fix s :: "'w boot" and i sf w1
    assume a: "i < length (bhandlers s) \<and> \<not> mapHas (cache s) (name (bhandlers s ! i)) \<and>
            handlerInit C (bhandlers s ! i) (bworld s) = ((False, sf), w1)"
    then have e: "initStep C i s = s\<lparr>bworld := w1,
         bhandlers := (bhandlers s)[i := (bhandlers s ! i)\<lparr>supportedFormats := sf\<rparr>],
         initCalls := initCalls s @ [(i, False)]\<rparr>"
      by (intro initStep_throws) simp_all
    from a have "initLoop C i s = initLoop C (Suc i) (initStep C i s)"
      by (intro initLoop_step) simp
    moreover have "cache (initStep C i s) = cache s" "rawFormats (initStep C i s) = rawFormats s"
      by (simp_all add: e)
    ultimately show "cache (initStep C i s) = cache s \<and> rawFormats (initStep C i s) = rawFormats s \<and>
            initLoop C i s = initLoop C (Suc i) (initStep C i s)"
      by blast
  qed
  have c10: "\<forall>(s :: 'w boot) i fs w1.
            i < length (bhandlers s) \<and> \<not> mapHas (cache s) (name (bhandlers s ! i)) \<and>
            handlerInit C (bhandlers s ! i) (bworld s) = ((True, Some fs), w1) \<longrightarrow>
            cache (initStep C i s) = cache s @ [(name (bhandlers s ! i), fs)] \<and>
            rawFormats (initStep C i s) = rawFormats s @ fs \<and>
            initLoop C i s = initLoop C (Suc i) (initStep C i s)"
  proof (intro allI impI)
    fix s :: "'w boot" and i fs w1
    assume a: "i < length (bhandlers s) \<and> \<not> mapHas (cache s) (name (bhandlers s ! i)) \<and>
            handlerInit C (bhandlers s ! i) (bworld s) = ((True, Some fs), w1)"
    then have e: "initStep C i s = s\<lparr>bworld := w1,
         bhandlers := (bhandlers s)[i := (bhandlers s ! i)\<lparr>supportedFormats := Some fs\<rparr>],
         initCalls := initCalls s @ [(i, True)],
         cache := cache s @ [(name (bhandlers s ! i), fs)],
         rawFormats := rawFormats s @ fs\<rparr>"
      by (intro initStep_returns) simp_all
    from a have "initLoop C i s = initLoop C (Suc i) (initStep C i s)"
      by (intro initLoop_step) simp
    moreover have "cache (initStep C i s) = cache s @ [(name (bhandlers s ! i), fs)]"
      "rawFormats (initStep C i s) = rawFormats s @ fs"
      by (simp_all add: e)
    ultimately show "cache (initStep C i s) = cache s @ [(name (bhandlers s ! i), fs)] \<and>
            rawFormats (initStep C i s) = rawFormats s @ fs \<and>
            initLoop C i s = initLoop C (Suc i) (initStep C i s)"
      by blast
  qed
  show ?thesis
    by (rule conjI [OF c0 conjI [OF c1 conjI [OF c2 conjI [OF c3 conjI [OF c4 conjI [OF c5
          conjI [OF c6 conjI [OF c7 conjI [OF c8 conjI [OF c9 c10]]]]]]]]]])
qed


text \<open>
  Runs of C8: an installation where \<open>dead\<close>, whose \<^verbatim>\<open>init\<close> throws, comes first, \<open>good\<close>
  is in the snapshot, and the \<^verbatim>\<open>init\<close> of \<open>lazy\<close> returns; one where every \<^verbatim>\<open>init\<close>
  throws and there is no snapshot; and one where \<^verbatim>\<open>graph.init\<close> throws.
\<close>

lemma ex_boot_mixed:
  "initializeEngine exBootCollab (Some exSnapshot) [exFresh ''dead'', exFresh ''good'', exFresh ''lazy''] ([], 0)
   = (Some \<lparr>handlers = [\<lparr>name = ''dead'', supportedFormats = None\<rparr>,
                    \<lparr>name = ''good'', supportedFormats = Some [exSvg, exPng]\<rparr>,
                    \<lparr>name = ''lazy'', supportedFormats = Some [exPng, exGif]\<rparr>],
       graph = newGraph,
       allFormats = [exSvg, exPng, exGif],
       supportedFormatCache = [(''good'', [exSvg, exPng]), (''lazy'', [exPng, exGif])],
       ready = True\<rparr>,
      \<lparr>bworld = ([], 0),
       bhandlers = [\<lparr>name = ''dead'', supportedFormats = None\<rparr>,
                    \<lparr>name = ''good'', supportedFormats = Some [exSvg, exPng]\<rparr>,
                    \<lparr>name = ''lazy'', supportedFormats = Some [exPng, exGif]\<rparr>],
       cache = [(''good'', [exSvg, exPng]), (''lazy'', [exPng, exGif])],
       rawFormats = [exSvg, exPng, exPng, exGif],
       initCalls = [(0, False), (2, True)]\<rparr>)"
  by (simp add: initializeEngine_def loadCache_def newMap_def initLoop.simps initStep_def mapHas_def
      exBootCollab_def exCollab_def exFresh_def exSnapshot_def Let_def mergeFormats_def mergeInto_def
      formatKey_def exSvg_def exPng_def exGif_def exFormat_def)

lemma ex_boot_dead:
  "initializeEngine exAllDead None [exFresh ''good'', exFresh ''lazy''] ([], 0)
   = (Some \<lparr>handlers = [exFresh ''good'', exFresh ''lazy''], graph = newGraph, allFormats = [],
       supportedFormatCache = [], ready = True\<rparr>,
      \<lparr>bworld = ([], 0), bhandlers = [exFresh ''good'', exFresh ''lazy''], cache = [],
       rawFormats = [], initCalls = [(0, False), (1, False)]\<rparr>)"
  by (simp add: initializeEngine_def loadCache_def initLoop.simps initStep_def mapHas_def
      exAllDead_def exCollab_def exFresh_def Let_def mergeFormats_def)

lemma ex_boot_rejects:
  "initializeEngine exNoGraph None [exFresh ''lazy''] ([], 0)
   = (None,
      \<lparr>bworld = ([], 0), bhandlers = [\<lparr>name = ''lazy'', supportedFormats = Some [exPng, exGif]\<rparr>],
       cache = [(''lazy'', [exPng, exGif])], rawFormats = [exPng, exGif],
       initCalls = [(0, True)]\<rparr>)"
  by (simp add: initializeEngine_def loadCache_def initLoop.simps initStep_def mapHas_def
      exNoGraph_def exBootCollab_def exCollab_def exFresh_def Let_def)

theorem init_failure_excluded_witness:
  "initializeEngine exBootCollab (Some exSnapshot) [exFresh ''dead'', exFresh ''good'', exFresh ''lazy''] ([], 0)
   = (Some \<lparr>handlers = [\<lparr>name = ''dead'', supportedFormats = None\<rparr>,
                    \<lparr>name = ''good'', supportedFormats = Some [exSvg, exPng]\<rparr>,
                    \<lparr>name = ''lazy'', supportedFormats = Some [exPng, exGif]\<rparr>],
       graph = newGraph,
       allFormats = [exSvg, exPng, exGif],
       supportedFormatCache = [(''good'', [exSvg, exPng]), (''lazy'', [exPng, exGif])],
       ready = True\<rparr>,
      \<lparr>bworld = ([], 0),
       bhandlers = [\<lparr>name = ''dead'', supportedFormats = None\<rparr>,
                    \<lparr>name = ''good'', supportedFormats = Some [exSvg, exPng]\<rparr>,
                    \<lparr>name = ''lazy'', supportedFormats = Some [exPng, exGif]\<rparr>],
       cache = [(''good'', [exSvg, exPng]), (''lazy'', [exPng, exGif])],
       rawFormats = [exSvg, exPng, exPng, exGif],
       initCalls = [(0, False), (2, True)]\<rparr>)
   \<and> handlerInit exBootCollab (exFresh ''dead'') ([], 0) = ((False, None), ([], 0))
   \<and> \<not> mapHas [(''good'', [exSvg, exPng]), (''lazy'', [exPng, exGif])] ''dead''
   \<and> handlerInit exBootCollab (exFresh ''lazy'') ([], 0) = ((True, Some [exPng, exGif]), ([], 0))
   \<and> map_of [(''good'', [exSvg, exPng]), (''lazy'', [exPng, exGif])] ''lazy'' = Some [exPng, exGif]
   \<and> initializeEngine exAllDead None [exFresh ''good'', exFresh ''lazy''] ([], 0)
     = (Some \<lparr>handlers = [exFresh ''good'', exFresh ''lazy''], graph = newGraph, allFormats = [],
         supportedFormatCache = [], ready = True\<rparr>,
        \<lparr>bworld = ([], 0), bhandlers = [exFresh ''good'', exFresh ''lazy''], cache = [],
         rawFormats = [], initCalls = [(0, False), (1, False)]\<rparr>)
   \<and> snapshotMap None = ([] :: (string \<times> FileFormat list) list)
   \<and> fst (initializeEngine exNoGraph None [exFresh ''lazy''] ([], 0)) = None
   \<and> graphInit exNoGraph [(''lazy'', [exPng, exGif])]
        [\<lparr>name = ''lazy'', supportedFormats = Some [exPng, exGif]\<rparr>] ([], 0) = (False, ([], 0))"
proof -
  let ?hs = "[exFresh ''dead'', exFresh ''good'', exFresh ''lazy'']"
  note a = init_failure_excluded [OF ex_boot_mixed]
  note b = init_failure_excluded [OF ex_boot_dead]
  note c = init_failure_excluded [OF ex_boot_rejects]
  have snap: "snapshotMap (Some exSnapshot) = [(''good'', [exSvg, exPng])]"
    by (simp add: snapshotMap_def newMap_def exSnapshot_def)
  have dead: "\<not> mapHas (snapshotMap (Some exSnapshot)) (name (?hs ! 0)) \<and>
      (\<forall>k<length ?hs. name (?hs ! k) = name (?hs ! 0) \<longrightarrow>
          (\<forall>w0. \<not> fst (fst (handlerInit exBootCollab (?hs ! k) w0))))"
    by (simp add: snap mapHas_def exFresh_def exBootCollab_def)
  have lazy: "\<not> mapHas (snapshotMap (Some exSnapshot)) (name (?hs ! 2)) \<and>
      (\<forall>l<2. name (?hs ! l) \<noteq> name (?hs ! 2)) \<and>
      (\<forall>w0. fst (handlerInit exBootCollab (?hs ! 2) w0) = (True, Some [exPng, exGif]))"
    by (simp add: snap mapHas_def exFresh_def exBootCollab_def less_Suc_eq numeral_2_eq_2)
  from a [THEN conjunct2, THEN conjunct2, THEN conjunct2, THEN conjunct2, THEN conjunct1,
      rule_format, of 0, OF _ dead]
  have x: "\<not> mapHas [(''good'', [exSvg, exPng]), (''lazy'', [exPng, exGif])] ''dead''"
    by (simp add: exFresh_def)
  from a [THEN conjunct2, THEN conjunct2, THEN conjunct2, THEN conjunct2, THEN conjunct2,
      THEN conjunct2, THEN conjunct2, THEN conjunct1, rule_format, of 2, OF _ lazy]
  have y: "map_of [(''good'', [exSvg, exPng]), (''lazy'', [exPng, exGif])] ''lazy'' = Some [exPng, exGif]"
    by (simp add: exFresh_def)
  have all_dead: "\<forall>h w0. \<not> fst (fst (handlerInit exAllDead h w0))"
    by (simp add: exAllDead_def)
  from b [THEN conjunct2, THEN conjunct2, THEN conjunct2, THEN conjunct2, THEN conjunct2,
      THEN conjunct2, THEN conjunct2, THEN conjunct2, THEN conjunct1, THEN mp, OF all_dead]
  have z: "snapshotMap None = ([] :: (string \<times> FileFormat list) list)" by simp
  from c [THEN conjunct1]
  have g: "graphInit exNoGraph [(''lazy'', [exPng, exGif])]
        [\<lparr>name = ''lazy'', supportedFormats = Some [exPng, exGif]\<rparr>] ([], 0) = (False, ([], 0))"
    by (simp add: exNoGraph_def)
  have i: "handlerInit exBootCollab (exFresh ''dead'') ([], 0) = ((False, None), ([], 0))"
    "handlerInit exBootCollab (exFresh ''lazy'') ([], 0) = ((True, Some [exPng, exGif]), ([], 0))"
    by (simp_all add: exBootCollab_def exFresh_def)
  from x y z g i ex_boot_mixed ex_boot_dead ex_boot_rejects show ?thesis by simp
qed


section \<open>Properties of the memoised engine\<close>

lemma idle_step: "idle ps \<Longrightarrow> idle (processStep ev ps) \<or> building (processStep ev ps)"
  by (cases ev)
     (simp_all add: idle_def building_def processStep_def getEngine_def shareInit_def initialModule_def)

lemma building_call: "building ps \<Longrightarrow> building (processStep Call ps)"
  by (simp add: building_def processStep_def getEngine_def shareInit_def)

lemma building_rejects: "building ps \<Longrightarrow> building (processStep (Rejects r) ps)"
  by (auto simp: building_def processStep_def)

lemma building_completes:
  assumes "building ps"
  shows "building (processStep (Completes r e) ps) \<or> readyWith (e\<lparr>ready := True\<rparr>) (processStep (Completes r e) ps)"
proof (cases "r = 0 \<and> settled ps = []")
  case True
  with assms have "readyWith (e\<lparr>ready := True\<rparr>) (processStep (Completes r e) ps)"
    by (simp add: building_def readyWith_def processStep_def)
  then show ?thesis ..
next
  case False
  with assms have "processStep (Completes r e) ps = ps"
    by (auto simp: building_def processStep_def)
  with assms show ?thesis by simp
qed

lemma ready_step: "readyWith e ps \<Longrightarrow> readyWith e (processStep ev ps)"
  by (cases ev) (auto simp: readyWith_def processStep_def getEngine_def)

lemma moduleInv_step:
  assumes "moduleInv ps"
  shows "moduleInv (processStep ev ps)"
proof -
  from assms consider "idle ps" | "building ps" | e where "readyWith e ps"
    unfolding moduleInv_def by blast
  then show ?thesis
  proof cases
    case 1
    from idle_step [OF this, of ev] show ?thesis unfolding moduleInv_def by blast
  next
    case 2
    show ?thesis
    proof (cases ev)
      case Call
      with building_call [OF 2] show ?thesis unfolding moduleInv_def by simp
    next
      case (Completes r e)
      with building_completes [OF 2, of r e] show ?thesis unfolding moduleInv_def by blast
    next
      case (Rejects r)
      with building_rejects [OF 2, of r] show ?thesis unfolding moduleInv_def by simp
    qed
  next
    case 3
    from ready_step [OF this, of ev] show ?thesis unfolding moduleInv_def by blast
  qed
qed

lemma moduleInv_run: "moduleInv (runProcess evs)"
proof (induction evs rule: rev_induct)
  case Nil
  show ?case by (simp add: runProcess_def moduleInv_def idle_def)
next
  case (snoc ev evs)
  then show ?case by (simp add: runProcess_def moduleInv_step)
qed

lemma moduleInv_started:
  "moduleInv ps \<Longrightarrow> started (module ps) \<le> 1 \<and> (answers ps \<noteq> [] \<longrightarrow> started (module ps) = 1)"
  by (auto simp: moduleInv_def idle_def building_def readyWith_def initialModule_def)

lemma moduleInv_answers:
  assumes "moduleInv ps" and "a \<in> set (answers ps)"
  shows "a = Pending 0 \<or> (\<exists>e. a = Instance (0, e) \<and> ready e)"
proof -
  from assms(1) consider "idle ps" | "building ps" | e where "readyWith e ps"
    unfolding moduleInv_def by blast
  then show ?thesis
  proof cases
    case 1 with assms(2) show ?thesis by (simp add: idle_def)
  next
    case 2 with assms(2) show ?thesis by (simp add: building_def)
  next
    case 3 with assms(2) show ?thesis by (auto simp: readyWith_def)
  qed
qed

lemma moduleInv_resolved:
  assumes "moduleInv ps" and "a \<in> set (answers ps)" and "resolved ps a = Some x"
  shows "engineInstance (module ps) = Some x"
proof -
  from assms(1) consider "idle ps" | "building ps" | e where "readyWith e ps"
    unfolding moduleInv_def by blast
  then show ?thesis
  proof cases
    case 1 with assms(2) show ?thesis by (simp add: idle_def)
  next
    case 2
    with assms(2) have "a = Pending 0" by (simp add: building_def)
    with 2 assms(3) show ?thesis by (auto simp: building_def resolved_def)
  next
    case 3
    with assms(2) have "a = Pending 0 \<or> a = Instance (0, e)" by (simp add: readyWith_def)
    with 3 assms(3) show ?thesis by (auto simp: readyWith_def resolved_def)
  qed
qed


text \<open>
  C9. After any sequence of calls of \<^verbatim>\<open>getEngine\<close> and completions or rejections of
  \<^verbatim>\<open>initializeEngine\<close>: at most one run of \<^verbatim>\<open>initializeEngine\<close> was ever started, and it was
  started by the first call; every call was handed the promise of that run or, once the
  engine was ready, the engine that run built; and any two calls that ended up with an
  engine ended up with the same engine object.
\<close>

theorem getEngine_memoized:
  "started (module (runProcess evs)) \<le> 1
   \<and> (answers (runProcess evs) \<noteq> [] \<longrightarrow> started (module (runProcess evs)) = 1)
   \<and> (\<forall>a\<in>set (answers (runProcess evs)). a = Pending 0 \<or> (\<exists>e. a = Instance (0, e) \<and> ready e))
   \<and> (\<forall>a\<in>set (answers (runProcess evs)). \<forall>b\<in>set (answers (runProcess evs)). \<forall>x y.
         resolved (runProcess evs) a = Some x \<and> resolved (runProcess evs) b = Some y \<longrightarrow> x = y)"
proof -
  let ?ps = "runProcess evs"
  have inv: "moduleInv ?ps" by (rule moduleInv_run)
  from moduleInv_started [OF inv] have A: "started (module ?ps) \<le> 1"
    and B: "answers ?ps \<noteq> [] \<longrightarrow> started (module ?ps) = 1" by simp_all
  have Cc: "\<forall>a\<in>set (answers ?ps). a = Pending 0 \<or> (\<exists>e. a = Instance (0, e) \<and> ready e)"
    using moduleInv_answers [OF inv] by blast
  have D: "\<forall>a\<in>set (answers ?ps). \<forall>b\<in>set (answers ?ps). \<forall>x y.
         resolved ?ps a = Some x \<and> resolved ?ps b = Some y \<longrightarrow> x = y"
  proof (intro ballI allI impI)
    fix a b x y
    assume a: "a \<in> set (answers ?ps)" and b: "b \<in> set (answers ?ps)"
      and r: "resolved ?ps a = Some x \<and> resolved ?ps b = Some y"
    from moduleInv_resolved [OF inv a] r have "engineInstance (module ?ps) = Some x" by simp
    moreover from moduleInv_resolved [OF inv b] r have "engineInstance (module ?ps) = Some y" by simp
    ultimately show "x = y" by simp
  qed
  show ?thesis by (rule conjI [OF A conjI [OF B conjI [OF Cc D]]])
qed


text \<open>
  A run of C9: two calls while the engine is being built, its completion, and two calls
  after it (a second completion of the same run cannot happen and changes nothing).
\<close>

lemma ex_process:
  "runProcess exEvents
   = \<lparr>module = \<lparr>engineInstance = Some (0, exEngine), initPromise = Some 0, started = 1\<rparr>,
      answers = [Pending 0, Pending 0, Instance (0, exEngine), Instance (0, exEngine)],
      settled = [(0, Some (0, exEngine))]\<rparr>"
  by (simp add: runProcess_def exEvents_def processStep_def getEngine_def shareInit_def
      initialModule_def exEngine_def)

theorem getEngine_memoized_witness:
  "answers (runProcess exEvents) = [Pending 0, Pending 0, Instance (0, exEngine), Instance (0, exEngine)]
   \<and> started (module (runProcess exEvents)) = 1
   \<and> resolved (runProcess exEvents) (Pending 0) = Some (0, exEngine)
   \<and> resolved (runProcess exEvents) (Instance (0, exEngine)) = Some (0, exEngine)"
  using getEngine_memoized [of exEvents]
  by (simp add: ex_process resolved_def)


end
